theory Spec2Isabelle
  imports Complex_Main "HOL-Library.Log_Nat"
begin

section \<open>IEEE doubles\<close>

text \<open>
  A JavaScript number is a double: a finite value, which is a rational, one of the two
  infinities, or \<open>NaN\<close>. The arithmetic of the source rounds every result to the nearest
  double, ties to even (\<open>roundDouble\<close>): the result is the exact rational result put on the
  grid of its binade, \<open>2 ^ (e - 52)\<close> for a value in \<open>[2 ^ e, 2 ^ (e + 1))\<close> and \<open>2 ^ - 1074\<close>
  below \<open>2 ^ - 1022\<close>, and it is an infinity from \<open>2 ^ 1024\<close> on. The two zeros are one
  value: nothing in the code reads the sign of a zero.
\<close>

datatype double = Fin rat | PInf | NInf | NaN

definition pow2 :: "int \<Rightarrow> rat" where
  "pow2 e = (if 0 \<le> e then 2 ^ nat e else 1 / 2 ^ nat (- e))"

definition ilog2 :: "rat \<Rightarrow> int" where
  "ilog2 x =
     (case quotient_of x of
        (a, b) \<Rightarrow>
          (let k = bitlen a - bitlen b
           in if of_int b * pow2 k \<le> (of_int a :: rat) then k else k - 1))"

definition roundEven :: "rat \<Rightarrow> int" where
  "roundEven y =
     (let f = \<lfloor>y\<rfloor>; d = y - of_int f
      in if d < 1 / 2 then f else if 1 / 2 < d then f + 1 else if even f then f else f + 1)"

definition rd :: "rat \<Rightarrow> rat" where
  "rd x = (if x = 0 then 0
           else (let g = pow2 (max (ilog2 \<bar>x\<bar>) (- 1022) - 52)
                 in of_int (roundEven (x / g)) * g))"

definition roundDouble :: "rat \<Rightarrow> double" where
  "roundDouble x =
     (let r = rd x
      in if r \<noteq> 0 \<and> 1024 \<le> ilog2 \<bar>r\<bar> then (if 0 < r then PInf else NInf) else Fin r)"

definition fneg :: "double \<Rightarrow> double" where
  "fneg a = (case a of Fin x \<Rightarrow> Fin (- x) | PInf \<Rightarrow> NInf | NInf \<Rightarrow> PInf | NaN \<Rightarrow> NaN)"

definition fadd :: "double \<Rightarrow> double \<Rightarrow> double" where
  "fadd a b =
     (case (a, b) of
        (Fin x, Fin y) \<Rightarrow> roundDouble (x + y)
      | (NaN, _) \<Rightarrow> NaN
      | (_, NaN) \<Rightarrow> NaN
      | (PInf, NInf) \<Rightarrow> NaN
      | (NInf, PInf) \<Rightarrow> NaN
      | (PInf, _) \<Rightarrow> PInf
      | (NInf, _) \<Rightarrow> NInf
      | (_, PInf) \<Rightarrow> PInf
      | (_, NInf) \<Rightarrow> NInf)"

definition fsub :: "double \<Rightarrow> double \<Rightarrow> double" where
  "fsub a b = fadd a (fneg b)"

definition dsign :: "double \<Rightarrow> int" where
  "dsign a = (case a of Fin x \<Rightarrow> sgn \<lfloor>sgn x\<rfloor> | PInf \<Rightarrow> 1 | NInf \<Rightarrow> - 1 | NaN \<Rightarrow> 0)"

definition fmul :: "double \<Rightarrow> double \<Rightarrow> double" where
  "fmul a b =
     (case (a, b) of
        (Fin x, Fin y) \<Rightarrow> roundDouble (x * y)
      | (NaN, _) \<Rightarrow> NaN
      | (_, NaN) \<Rightarrow> NaN
      | _ \<Rightarrow> (let s = dsign a * dsign b
             in if s = 0 then NaN else if 0 < s then PInf else NInf))"

definition fdiv :: "double \<Rightarrow> double \<Rightarrow> double" where
  "fdiv a b =
     (case (a, b) of
        (NaN, _) \<Rightarrow> NaN
      | (_, NaN) \<Rightarrow> NaN
      | (Fin x, Fin y) \<Rightarrow>
          (if y = 0 then (if x = 0 then NaN else if 0 < x then PInf else NInf)
           else roundDouble (x / y))
      | (Fin x, _) \<Rightarrow> Fin 0
      | (_, Fin y) \<Rightarrow> (if 0 < dsign a * (if y < 0 then - 1 else 1) then PInf else NInf)
      | _ \<Rightarrow> NaN)"

definition dle :: "double \<Rightarrow> double \<Rightarrow> bool" where
  "dle a b =
     (case (a, b) of
        (NaN, _) \<Rightarrow> False
      | (_, NaN) \<Rightarrow> False
      | (Fin x, Fin y) \<Rightarrow> x \<le> y
      | (NInf, _) \<Rightarrow> True
      | (_, PInf) \<Rightarrow> True
      | _ \<Rightarrow> False)"

definition dlt :: "double \<Rightarrow> double \<Rightarrow> bool" where
  "dlt a b =
     (case (a, b) of
        (NaN, _) \<Rightarrow> False
      | (_, NaN) \<Rightarrow> False
      | (Fin x, Fin y) \<Rightarrow> x < y
      | (PInf, _) \<Rightarrow> False
      | (_, NInf) \<Rightarrow> False
      | _ \<Rightarrow> True)"

definition dabs :: "double \<Rightarrow> double" where
  "dabs a = (case a of Fin x \<Rightarrow> Fin \<bar>x\<bar> | PInf \<Rightarrow> PInf | NInf \<Rightarrow> PInf | NaN \<Rightarrow> NaN)"

definition dfloor :: "double \<Rightarrow> double" where
  "dfloor a = (case a of Fin x \<Rightarrow> Fin (of_int \<lfloor>x\<rfloor>) | _ \<Rightarrow> a)"

definition dmax :: "double \<Rightarrow> double \<Rightarrow> double" where
  "dmax a b = (if a = NaN \<or> b = NaN then NaN else if dle a b then b else a)"

definition dmin :: "double \<Rightarrow> double \<Rightarrow> double" where
  "dmin a b = (if a = NaN \<or> b = NaN then NaN else if dle a b then a else b)"

definition isIntegerD :: "double \<Rightarrow> bool" where
  "isIntegerD a = (case a of Fin x \<Rightarrow> of_int \<lfloor>x\<rfloor> = x | _ \<Rightarrow> False)"

definition isFiniteD :: "double \<Rightarrow> bool" where
  "isFiniteD a = (case a of Fin x \<Rightarrow> True | _ \<Rightarrow> False)"

definition ofInt :: "int \<Rightarrow> double" where
  "ofInt k = roundDouble (of_int k)"

text \<open>The integer that a loop counter reaches when it counts up to a finite double.\<close>

definition toInt :: "double \<Rightarrow> int" where
  "toInt a = (case a of Fin x \<Rightarrow> \<lfloor>x\<rfloor> | _ \<Rightarrow> 0)"

text \<open>The exponent of the grid on which a rational is rounded; the values that are doubles.\<close>

definition gridExp :: "rat \<Rightarrow> int" where
  "gridExp x = max (ilog2 \<bar>x\<bar>) (- 1022) - 52"

definition isDouble :: "rat \<Rightarrow> bool" where
  "isDouble x \<longleftrightarrow> rd x = x"

text \<open>
  \<open>Math.pow\<close> is a function of the platform, and the language standard leaves its results
  to the implementation. The functions that call it take it as their first argument.
  \<open>powRounded\<close> is the power rounded once, for an integer exponent that is not negative.
\<close>

type_synonym powFn = "double \<Rightarrow> double \<Rightarrow> double"

definition powRounded :: powFn where
  "powRounded x y =
     (case (x, y) of
        (Fin a, Fin n) \<Rightarrow>
          (if of_int \<lfloor>n\<rfloor> = n \<and> 0 \<le> n then roundDouble (a ^ nat \<lfloor>n\<rfloor>) else NaN)
      | _ \<Rightarrow> NaN)"

section \<open>Errors and the tagged types of the domain\<close>

text \<open>
  A thrown \<open>Error\<close> is the left summand of a result, carrying the message of the source.
  Outcomes, faces, die counts and die sides are integers (the parser reads them from digit
  strings); where the source computes with one of them it is converted with \<open>ofInt\<close>.
  Probabilities, expectations, the armour class and the numeric options of a request are
  doubles.
\<close>

datatype error = Error string

datatype AdvantageState = ANormal | AAdvantage | ADisadvantage

datatype DamageModifier = MNormal | Resistant | Vulnerable | Immune

datatype DamageDiceRollMode = RNormal | RAdvantage | RDisadvantage

section \<open>The distribution engine (package prob)\<close>

text \<open>
  A distribution entry is a pair of an integer outcome and its probability. The \<open>Map\<close> of
  the source keeps insertion order, so it is an association list (\<open>dmap\<close>); \<open>entries\<close> is
  that list sorted by outcome. Every \<open>ProbabilityDistribution\<close> is built by \<open>normalize\<close>
  (the fields are read-only in the source), hence its entries are ascending.
\<close>

type_synonym DistributionEntry = "int \<times> double"

abbreviation outcome :: "DistributionEntry \<Rightarrow> int" where
  "outcome \<equiv> fst"

abbreviation probability :: "DistributionEntry \<Rightarrow> double" where
  "probability \<equiv> snd"

record ProbabilityDistribution =
  dmap :: "(int \<times> double) list"
  entries :: "DistributionEntry list"
  totalProbability :: double

record DenseDistribution =
  offset :: int
  dvalues :: "double list"

text \<open>The literal \<open>1e-15\<close> is the double nearest to that decimal.\<close>

definition PROBABILITY_EPSILON :: double where
  "PROBABILITY_EPSILON = roundDouble (1 / 10 ^ 15)"

text \<open>\<open>map.set(key, v)\<close>: an existing key keeps its place, a new key goes last.\<close>

fun mapSet :: "(int \<times> double) list \<Rightarrow> int \<Rightarrow> double \<Rightarrow> (int \<times> double) list" where
  "mapSet [] k v = [(k, v)]"
| "mapSet ((k', v') # m) k v = (if k' = k then (k, v) # m else (k', v') # mapSet m k v)"

definition mapGetOr0 :: "(int \<times> double) list \<Rightarrow> int \<Rightarrow> double" where
  "mapGetOr0 m k = (case map_of m k of None \<Rightarrow> Fin 0 | Some v \<Rightarrow> v)"

definition normalize :: "DistributionEntry list \<Rightarrow> ProbabilityDistribution" where
  "normalize es =
     (let m = fold (\<lambda>entry m. mapSet m (outcome entry)
                                 (fadd (mapGetOr0 m (outcome entry)) (probability entry)))
                es [];
          sortedEntries = sort_key outcome m;
          total = foldl (\<lambda>sum entry. fadd sum (probability entry)) (Fin 0) sortedEntries
      in \<lparr>dmap = m, entries = sortedEntries, totalProbability = total\<rparr>)"

text \<open>A store into a typed array; an index outside the array is ignored.\<close>

definition storeAt :: "double list \<Rightarrow> int \<Rightarrow> double \<Rightarrow> double list" where
  "storeAt vs i v = (if 0 \<le> i \<and> nat i < length vs then vs[nat i := v] else vs)"

definition toDense :: "ProbabilityDistribution \<Rightarrow> DenseDistribution" where
  "toDense distribution =
     (case entries distribution of
        [] \<Rightarrow> \<lparr>offset = 0, dvalues = [Fin 0]\<rparr>
      | e # es \<Rightarrow>
          (let firstOutcome = outcome e;
               lastOutcome = outcome (last (e # es));
               zeros = replicate (nat (lastOutcome - firstOutcome + 1)) (Fin 0)
           in \<lparr>offset = firstOutcome,
               dvalues = fold (\<lambda>entry vs. storeAt vs (outcome entry - firstOutcome) (probability entry))
                           (e # es) zeros\<rparr>))"

definition fromDense :: "DenseDistribution \<Rightarrow> ProbabilityDistribution" where
  "fromDense distribution =
     normalize
       (map (\<lambda>index. (offset distribution + int index, dvalues distribution ! index))
          (filter (\<lambda>index. \<not> dle (dabs (dvalues distribution ! index)) PROBABILITY_EPSILON)
             [0..<length (dvalues distribution)]))"

definition addAt :: "double list \<Rightarrow> nat \<Rightarrow> double \<Rightarrow> double list" where
  "addAt vs i x = (if i < length vs then vs[i := fadd (vs ! i) x] else vs)"

definition convolveRow :: "double \<Rightarrow> nat \<Rightarrow> double list \<Rightarrow> double list \<Rightarrow> double list" where
  "convolveRow leftProbability leftIndex rightValues vs =
     fold (\<lambda>rightIndex vs.
             let rightProbability = rightValues ! rightIndex in
             if dle (dabs rightProbability) PROBABILITY_EPSILON then vs
             else addAt vs (leftIndex + rightIndex) (fmul leftProbability rightProbability))
       [0..<length rightValues] vs"

definition convolveDense :: "DenseDistribution \<Rightarrow> DenseDistribution \<Rightarrow> DenseDistribution" where
  "convolveDense left right =
     (let zeros = replicate (length (dvalues left) + length (dvalues right) - 1) (Fin 0);
          vs = fold (\<lambda>leftIndex vs.
                       let leftProbability = dvalues left ! leftIndex in
                       if dle (dabs leftProbability) PROBABILITY_EPSILON then vs
                       else convolveRow leftProbability leftIndex (dvalues right) vs)
                 [0..<length (dvalues left)] zeros
      in \<lparr>offset = offset left + offset right, dvalues = vs\<rparr>)"

definition fromEntries :: "DistributionEntry list \<Rightarrow> ProbabilityDistribution" where
  "fromEntries es = normalize es"

definition
  "constant (v :: int) = normalize [(v, Fin 1)]"

definition uniformDie :: "double \<Rightarrow> error + ProbabilityDistribution" where
  "uniformDie sides =
     (if \<not> isIntegerD sides \<or> dle sides (Fin 0) then Inl (Error ''sides must be a positive integer'')
      else Inr (normalize (map (\<lambda>face. (face, fdiv (Fin 1) sides)) [1..toInt sides])))"

definition shift :: "ProbabilityDistribution \<Rightarrow> int \<Rightarrow> ProbabilityDistribution" where
  "shift distribution amount =
     normalize (map (\<lambda>entry. (outcome entry + amount, probability entry)) (entries distribution))"

definition mapOutcomes :: "ProbabilityDistribution \<Rightarrow> (int \<Rightarrow> int) \<Rightarrow> ProbabilityDistribution" where
  "mapOutcomes distribution transform =
     normalize (map (\<lambda>entry. (transform (outcome entry), probability entry)) (entries distribution))"

definition convolve :: "ProbabilityDistribution \<Rightarrow> ProbabilityDistribution \<Rightarrow> ProbabilityDistribution" where
  "convolve left right = fromDense (convolveDense (toDense left) (toDense right))"

fun convolveTimes :: "nat \<Rightarrow> DenseDistribution \<Rightarrow> DenseDistribution \<Rightarrow> DenseDistribution" where
  "convolveTimes 0 denseBase result = result"
| "convolveTimes (Suc n) denseBase result = convolveTimes n denseBase (convolveDense result denseBase)"

definition repeatConvolve :: "ProbabilityDistribution \<Rightarrow> double \<Rightarrow> error + ProbabilityDistribution" where
  "repeatConvolve base ntimes =
     (if \<not> isIntegerD ntimes \<or> dlt ntimes (Fin 0)
      then Inl (Error ''times must be a non-negative integer'')
      else if ntimes = Fin 0 then Inr (constant 0)
      else Inr (fromDense (convolveTimes (nat (toInt ntimes)) (toDense base)
                             \<lparr>offset = 0, dvalues = [Fin 1]\<rparr>)))"

definition expectation :: "ProbabilityDistribution \<Rightarrow> double" where
  "expectation distribution =
     foldl (\<lambda>sum entry. fadd sum (fmul (ofInt (outcome entry)) (probability entry))) (Fin 0)
       (entries distribution)"

definition probabilityAtLeast :: "ProbabilityDistribution \<Rightarrow> double \<Rightarrow> double" where
  "probabilityAtLeast distribution threshold =
     foldl (\<lambda>sum entry. fadd sum (probability entry)) (Fin 0)
       (filter (\<lambda>entry. dle threshold (ofInt (outcome entry))) (entries distribution))"

definition probabilityAtMost :: "ProbabilityDistribution \<Rightarrow> double \<Rightarrow> double" where
  "probabilityAtMost distribution threshold =
     foldl (\<lambda>sum entry. fadd sum (probability entry)) (Fin 0)
       (filter (\<lambda>entry. dle (ofInt (outcome entry)) threshold) (entries distribution))"

text \<open>
  The loops of \<open>maxOfIndependent\<close> and \<open>minOfIndependent\<close>; \<open>previousCdf\<close> and \<open>cumulative\<close>
  hold the same number after every iteration, as in the source.
\<close>

fun maxLoop ::
  "powFn \<Rightarrow> double \<Rightarrow> DistributionEntry list \<Rightarrow> double \<Rightarrow> double \<Rightarrow> DistributionEntry list" where
  "maxLoop pw count [] previousCdf cumulative = []"
| "maxLoop pw count (entry # rest) previousCdf cumulative =
     (let currentCdf = fadd cumulative (probability entry)
      in (outcome entry, fsub (pw currentCdf count) (pw previousCdf count))
         # maxLoop pw count rest currentCdf currentCdf)"

fun minLoop ::
  "powFn \<Rightarrow> double \<Rightarrow> DistributionEntry list \<Rightarrow> double \<Rightarrow> double \<Rightarrow> DistributionEntry list" where
  "minLoop pw count [] previousCdf cumulative = []"
| "minLoop pw count (entry # rest) previousCdf cumulative =
     (let currentCdf = fadd cumulative (probability entry)
      in (outcome entry,
          fsub (pw (fsub (Fin 1) previousCdf) count) (pw (fsub (Fin 1) currentCdf) count))
         # minLoop pw count rest currentCdf currentCdf)"

definition maxOfIndependent ::
  "powFn \<Rightarrow> ProbabilityDistribution \<Rightarrow> double \<Rightarrow> error + ProbabilityDistribution" where
  "maxOfIndependent pw distribution count =
     (if \<not> isIntegerD count \<or> dle count (Fin 0) then Inl (Error ''count must be a positive integer'')
      else if count = Fin 1 then Inr distribution
      else Inr (fromEntries (maxLoop pw count (entries distribution) (Fin 0) (Fin 0))))"

definition minOfIndependent ::
  "powFn \<Rightarrow> ProbabilityDistribution \<Rightarrow> double \<Rightarrow> error + ProbabilityDistribution" where
  "minOfIndependent pw distribution count =
     (if \<not> isIntegerD count \<or> dle count (Fin 0) then Inl (Error ''count must be a positive integer'')
      else if count = Fin 1 then Inr distribution
      else Inr (fromEntries (minLoop pw count (entries distribution) (Fin 0) (Fin 0))))"

section \<open>The attack probability model (package domain)\<close>

text \<open>
  An expression is the parser's record or a bare component array; \<open>asComponents\<close> reads
  the components of either. Faces of the rule configuration are integers.
\<close>

datatype ExpressionComponent = Dice int int int | Constant int

datatype DiceExpression =
  ParsedDiceExpression string string "ExpressionComponent list"
  | ComponentArray "ExpressionComponent list"

record AttackRollRuleConfig =
  dieSides :: double
  autoMissFaces :: "int list"
  autoCritFaces :: "int list"

record AttackCheckInput =
  armorClass :: double
  attackBonusExpression :: DiceExpression
  advantageState :: AdvantageState
  rules :: AttackRollRuleConfig
  halflingLucky :: "bool option"

record AttackOutcomeProbabilities =
  miss :: double
  hit :: double
  critical :: double

fun asComponents :: "DiceExpression \<Rightarrow> ExpressionComponent list" where
  "asComponents (ParsedDiceExpression source normalized components) = components"
| "asComponents (ComponentArray components) = components"

definition validateAttackRules :: "AttackRollRuleConfig \<Rightarrow> error + unit" where
  "validateAttackRules config =
     (if \<not> isIntegerD (dieSides config) \<or> dle (dieSides config) (Fin 1)
      then Inl (Error ''dieSides must be an integer greater than 1'')
      else Inr ())"

text \<open>\<open>xs[i] ?? 0\<close>: a read outside the array is \<open>undefined\<close>, replaced by 0.\<close>

definition nthOr0 :: "double list \<Rightarrow> int \<Rightarrow> double" where
  "nthOr0 xs i = (if 0 \<le> i \<and> nat i < length xs then xs ! nat i else Fin 0)"

text \<open>The loop of \<open>probabilityOfFace\<close>, with its \<open>break\<close> at the face.\<close>

function cdfLoop :: "double list \<Rightarrow> int \<Rightarrow> int \<Rightarrow> double \<Rightarrow> double \<Rightarrow> double \<times> double" where
  "cdfLoop single face v cdfAtFace cdfBeforeFace =
     (if v \<le> int (length single) - 1 then
        (let p = nthOr0 single v;
             cdfAtFace' = fadd cdfAtFace p;
             cdfBeforeFace' = (if v < face then fadd cdfBeforeFace p else cdfBeforeFace)
         in if face \<le> v then (cdfAtFace', cdfBeforeFace')
            else cdfLoop single face (v + 1) cdfAtFace' cdfBeforeFace')
      else (cdfAtFace, cdfBeforeFace))"
  by pat_completeness auto
termination
  by (relation "measure (\<lambda>(single, face, v, a, b). nat (int (length single) - v))") auto

declare cdfLoop.simps [simp del]

definition probabilityOfFace :: "double list \<Rightarrow> int \<Rightarrow> AdvantageState \<Rightarrow> double" where
  "probabilityOfFace singleDieDistribution face state =
     (let singleFace = nthOr0 singleDieDistribution face in
      if state = ANormal then singleFace
      else
        (let (cdfAtFace, cdfBeforeFace) = cdfLoop singleDieDistribution face 1 (Fin 0) (Fin 0) in
         if state = AAdvantage
         then fsub (fmul cdfAtFace cdfAtFace) (fmul cdfBeforeFace cdfBeforeFace)
         else
           (let atLeastFace = fsub (Fin 1) cdfBeforeFace;
                aboveFace = fsub (Fin 1) cdfAtFace
            in fsub (fmul atLeastFace atLeastFace) (fmul aboveFace aboveFace))))"

text \<open>
  The array of \<open>dieSides + 1\<close> cells: cell 0 stays 0; without the lucky reroll every face
  holds \<open>1 / dieSides\<close>; with it face 1 holds the square of that and every other face the
  sum of both. \<open>dieSides\<close> has passed \<open>validateAttackRules\<close> when this is called.
\<close>

definition buildSingleDieDistribution :: "double \<Rightarrow> bool \<Rightarrow> double list" where
  "buildSingleDieDistribution sides lucky =
     (let baseProbability = fdiv (Fin 1) sides;
          rerollSameFace = fmul baseProbability baseProbability
      in map (\<lambda>face. if face = 0 then Fin 0
                      else if \<not> lucky then baseProbability
                      else if face = 1 then rerollSameFace
                      else fadd baseProbability rerollSameFace)
           [0..<nat (toInt sides) + 1])"

fun attackBonusLoop ::
  "ExpressionComponent list \<Rightarrow> ProbabilityDistribution \<Rightarrow> error + ProbabilityDistribution" where
  "attackBonusLoop [] distribution = Inr distribution"
| "attackBonusLoop (Constant v # rest) distribution = attackBonusLoop rest (shift distribution v)"
| "attackBonusLoop (Dice cnt sides termSign # rest) distribution =
     (case uniformDie (ofInt sides) of
        Inl e \<Rightarrow> Inl e
      | Inr die \<Rightarrow>
          (case repeatConvolve die (ofInt cnt) of
             Inl e \<Rightarrow> Inl e
           | Inr dice \<Rightarrow>
               attackBonusLoop rest
                 (convolve distribution
                    (if termSign < 0 then mapOutcomes dice (\<lambda>outcome. - outcome) else dice))))"

definition buildAttackBonusDistribution :: "DiceExpression \<Rightarrow> error + ProbabilityDistribution" where
  "buildAttackBonusDistribution expression = attackBonusLoop (asComponents expression) (constant 0)"

definition faceStep ::
  "AttackCheckInput \<Rightarrow> ProbabilityDistribution \<Rightarrow> double list \<Rightarrow> int
     \<Rightarrow> AttackOutcomeProbabilities \<Rightarrow> AttackOutcomeProbabilities" where
  "faceStep input attackBonusDistribution singleDieDistribution face acc =
     (let chance = probabilityOfFace singleDieDistribution face (advantageState input);
          isAutoMiss = face \<in> set (autoMissFaces (rules input));
          isAutoCrit = face \<in> set (autoCritFaces (rules input))
      in if isAutoMiss then acc\<lparr>miss := fadd (miss acc) chance\<rparr>
         else if isAutoCrit then acc\<lparr>critical := fadd (critical acc) chance\<rparr>
         else
           (let neededBonus = fsub (armorClass input) (ofInt face);
                hitChanceGivenFace = probabilityAtLeast attackBonusDistribution neededBonus
            in acc\<lparr>hit := fadd (hit acc) (fmul chance hitChanceGivenFace),
                    miss := fadd (miss acc) (fmul chance (fsub (Fin 1) hitChanceGivenFace))\<rparr>))"

definition calculateAttackOutcomeProbabilities ::
  "AttackCheckInput \<Rightarrow> error + AttackOutcomeProbabilities" where
  "calculateAttackOutcomeProbabilities input =
     (case validateAttackRules (rules input) of
        Inl e \<Rightarrow> Inl e
      | Inr u \<Rightarrow>
          (case buildAttackBonusDistribution (attackBonusExpression input) of
             Inl e \<Rightarrow> Inl e
           | Inr attackBonusDistribution \<Rightarrow>
               (let singleDieDistribution =
                      buildSingleDieDistribution (dieSides (rules input))
                        (halflingLucky input = Some True)
                in Inr (fold (faceStep input attackBonusDistribution singleDieDistribution)
                          [1..toInt (dieSides (rules input))]
                          \<lparr>miss = Fin 0, hit = Fin 0, critical = Fin 0\<rparr>))))"

section \<open>Damage modifiers (domain)\<close>

text \<open>
  The damage modifier and the save path below only floor, compare, halve and double, or
  evaluate one scalar formula; they are written over the rationals, \<open>number\<close>.
\<close>

type_synonym number = rat


definition applyDamageModifier :: "number \<Rightarrow> DamageModifier \<Rightarrow> int" where
  "applyDamageModifier rawDamage modifier =
     (let sanitized = max 0 \<lfloor>rawDamage\<rfloor> in
      if modifier = Immune then 0
      else if modifier = Resistant then \<lfloor>(of_int sanitized :: rat) / 2\<rfloor>
      else if modifier = Vulnerable then sanitized * 2
      else sanitized)"

section \<open>The damage distribution model and the plan aggregator (domain)\<close>

record DamageModel =
  expression :: DiceExpression
  criticalDiceMultiplier :: double
  modifier :: DamageModifier
  diceRollMode :: "DamageDiceRollMode option"
  damageRollCount :: "double option"
  rerollLowThreshold :: "double option"

record AttackDamageRequest =
  attack :: AttackCheckInput
  damage :: DamageModel

record AttackDamageResult =
  probabilities :: AttackOutcomeProbabilities
  hitDamageDistribution :: ProbabilityDistribution
  criticalDamageDistribution :: ProbabilityDistribution
  totalDamageDistribution :: ProbabilityDistribution
  expectedDamageOnHit :: double
  expectedDamageOnCritical :: double
  expectedDamagePerAttack :: double

record AttackDamagePlanStep =
  request :: AttackDamageRequest
  repeat :: "double option"

text \<open>
  The fields of a step result and of a plan result that share a name with a field above
  carry the prefix \<open>step\<close> or \<open>plan\<close>.
\<close>

record AttackDamagePlanStepResult =
  stepRequest :: AttackDamageRequest
  stepRepeat :: double
  stepResult :: AttackDamageResult
  stepTotalDamageDistribution :: ProbabilityDistribution
  expectedDamageTotal :: double

record AttackDamagePlanResult =
  steps :: "AttackDamagePlanStepResult list"
  planTotalDamageDistribution :: ProbabilityDistribution
  expectedDamagePerPlan :: double

text \<open>
  The function is private to the module and is called with the sides of a dice term, an
  integer. A threshold that is \<open>NaN\<close> fails the test \<open><= 0\<close> and makes every probability
  \<open>NaN\<close>.
\<close>

definition buildRerollLowDieDistribution ::
  "int \<Rightarrow> double option \<Rightarrow> error + ProbabilityDistribution" where
  "buildRerollLowDieDistribution sides rerollLow =
     (case rerollLow of
        None \<Rightarrow> uniformDie (ofInt sides)
      | Some t \<Rightarrow>
          if dle t (Fin 0) then uniformDie (ofInt sides)
          else
            (let threshold = dmin (ofInt sides) (dfloor t) in
             Inr (fromEntries
                    (map (\<lambda>face. (face,
                                  if dle (ofInt face) threshold
                                  then fdiv threshold (fmul (ofInt sides) (ofInt sides))
                                  else fadd (fdiv (Fin 1) (ofInt sides))
                                         (fdiv threshold (fmul (ofInt sides) (ofInt sides)))))
                       [1..sides]))))"

definition buildNonCriticalDamageModel :: "DamageModel \<Rightarrow> DamageModel" where
  "buildNonCriticalDamageModel model = model\<lparr>criticalDiceMultiplier := Fin 1\<rparr>"

definition buildCriticalDamageModel :: "DamageModel \<Rightarrow> DamageModel" where
  "buildCriticalDamageModel model = model\<lparr>criticalDiceMultiplier := criticalDiceMultiplier model\<rparr>"

fun damageLoop ::
  "double \<Rightarrow> double option \<Rightarrow> ExpressionComponent list \<Rightarrow> ProbabilityDistribution
     \<Rightarrow> error + ProbabilityDistribution" where
  "damageLoop multiplier rerollLow [] distribution = Inr distribution"
| "damageLoop multiplier rerollLow (Constant v # rest) distribution =
     damageLoop multiplier rerollLow rest (shift distribution v)"
| "damageLoop multiplier rerollLow (Dice cnt sides termSign # rest) distribution =
     (let effectiveCount = fmul (ofInt cnt) multiplier in
      case buildRerollLowDieDistribution sides rerollLow of
        Inl e \<Rightarrow> Inl e
      | Inr dieDistribution \<Rightarrow>
          (case repeatConvolve dieDistribution effectiveCount of
             Inl e \<Rightarrow> Inl e
           | Inr dice \<Rightarrow>
               damageLoop multiplier rerollLow rest
                 (convolve distribution
                    (if termSign < 0 then mapOutcomes dice (\<lambda>outcome. - outcome) else dice))))"

definition buildDamageDistribution ::
  "DiceExpression \<Rightarrow> double \<Rightarrow> double option \<Rightarrow> error + ProbabilityDistribution" where
  "buildDamageDistribution expr multiplier rerollLow =
     (if \<not> isIntegerD multiplier \<or> dle multiplier (Fin 0)
      then Inl (Error ''criticalDiceMultiplier must be a positive integer'')
      else damageLoop multiplier rerollLow (asComponents expr) (constant 0))"

definition resolveDiceRollMode :: "DamageDiceRollMode option \<Rightarrow> DamageDiceRollMode" where
  "resolveDiceRollMode mode = (case mode of None \<Rightarrow> RNormal | Some m \<Rightarrow> m)"

definition resolveDamageRollCount :: "DamageDiceRollMode \<Rightarrow> double option \<Rightarrow> double" where
  "resolveDamageRollCount mode cnt =
     (case cnt of
        Some c \<Rightarrow> dmax (Fin 1) (dfloor c)
      | None \<Rightarrow> if mode = RNormal then Fin 1 else Fin 2)"

definition normalizeStepRepeat :: "double option \<Rightarrow> error + double" where
  "normalizeStepRepeat r =
     (case r of
        None \<Rightarrow> Inr (Fin 1)
      | Some x \<Rightarrow>
          if \<not> isFiniteD x then Inl (Error ''repeat must be a finite number'')
          else
            (let normalized = dfloor x in
             if dlt normalized (Fin 1) then Inl (Error ''repeat must be at least 1'')
             else Inr normalized))"

text \<open>The third parameter is optional in the source, with default 2.\<close>

definition applyDamageDiceRollMode ::
  "powFn \<Rightarrow> ProbabilityDistribution \<Rightarrow> DamageDiceRollMode \<Rightarrow> double option
     \<Rightarrow> error + ProbabilityDistribution" where
  "applyDamageDiceRollMode pw distribution mode rollCountArg =
     (let rollCount = (case rollCountArg of None \<Rightarrow> Fin 2 | Some c \<Rightarrow> c) in
      if mode = RNormal then Inr distribution
      else if dle rollCount (Fin 1) then Inr distribution
      else if mode = RDisadvantage then minOfIndependent pw distribution rollCount
      else maxOfIndependent pw distribution rollCount)"

definition applyModifierToDistribution ::
  "ProbabilityDistribution \<Rightarrow> DamageModifier \<Rightarrow> ProbabilityDistribution" where
  "applyModifierToDistribution distribution m =
     mapOutcomes distribution (\<lambda>outcome. applyDamageModifier (of_int outcome) m)"

text \<open>
  One damage branch of \<open>calculateAttackDamage\<close>: the distribution of the model's
  expression, passed through the roll mode (the source writes this call twice, once per
  branch).
\<close>

definition rawBranchDistribution ::
  "powFn \<Rightarrow> DamageModel \<Rightarrow> DamageDiceRollMode \<Rightarrow> double \<Rightarrow> error + ProbabilityDistribution" where
  "rawBranchDistribution pw model mode rollCount =
     (case buildDamageDistribution (expression model) (criticalDiceMultiplier model)
             (rerollLowThreshold model) of
        Inl e \<Rightarrow> Inl e
      | Inr built \<Rightarrow> applyDamageDiceRollMode pw built mode (Some rollCount))"

definition calculateAttackDamage :: "powFn \<Rightarrow> AttackDamageRequest \<Rightarrow> error + AttackDamageResult" where
  "calculateAttackDamage pw req =
     (case calculateAttackOutcomeProbabilities (attack req) of
        Inl e \<Rightarrow> Inl e
      | Inr probs \<Rightarrow>
          (let mode = resolveDiceRollMode (diceRollMode (damage req));
               rollCount = resolveDamageRollCount mode (damageRollCount (damage req))
           in case rawBranchDistribution pw (buildNonCriticalDamageModel (damage req)) mode rollCount of
                Inl e \<Rightarrow> Inl e
              | Inr rawHitDistribution \<Rightarrow>
                  (case rawBranchDistribution pw (buildCriticalDamageModel (damage req)) mode rollCount of
                     Inl e \<Rightarrow> Inl e
                   | Inr rawCritDistribution \<Rightarrow>
                       (let hitDist = applyModifierToDistribution rawHitDistribution
                                        (modifier (damage req));
                            critDist = applyModifierToDistribution rawCritDistribution
                                         (modifier (damage req));
                            weightedEntries =
                              (0, miss probs)
                              # map (\<lambda>entry. (outcome entry, fmul (probability entry) (hit probs)))
                                  (entries hitDist)
                              @ map (\<lambda>entry. (outcome entry, fmul (probability entry) (critical probs)))
                                  (entries critDist);
                            onHit = expectation hitDist;
                            onCritical = expectation critDist
                        in Inr \<lparr>probabilities = probs,
                                hitDamageDistribution = hitDist,
                                criticalDamageDistribution = critDist,
                                totalDamageDistribution = fromEntries weightedEntries,
                                expectedDamageOnHit = onHit,
                                expectedDamageOnCritical = onCritical,
                                expectedDamagePerAttack =
                                  fadd (fmul (hit probs) onHit) (fmul (critical probs) onCritical)\<rparr>))))"

fun planLoop ::
  "powFn \<Rightarrow> AttackDamagePlanStep list \<Rightarrow> ProbabilityDistribution \<Rightarrow> AttackDamagePlanStepResult list
     \<Rightarrow> error + AttackDamagePlanResult" where
  "planLoop pw [] totalDist resolved =
     Inr \<lparr>steps = resolved, planTotalDamageDistribution = totalDist,
          expectedDamagePerPlan = expectation totalDist\<rparr>"
| "planLoop pw (step # rest) totalDist resolved =
     (case normalizeStepRepeat (repeat step) of
        Inl e \<Rightarrow> Inl e
      | Inr rep \<Rightarrow>
          (case calculateAttackDamage pw (request step) of
             Inl e \<Rightarrow> Inl e
           | Inr res \<Rightarrow>
               (case repeatConvolve (totalDamageDistribution res) rep of
                  Inl e \<Rightarrow> Inl e
                | Inr repeatedDistribution \<Rightarrow>
                    planLoop pw rest (convolve totalDist repeatedDistribution)
                      (resolved @
                         [\<lparr>stepRequest = request step, stepRepeat = rep, stepResult = res,
                           stepTotalDamageDistribution = repeatedDistribution,
                           expectedDamageTotal = fmul (expectedDamagePerAttack res) rep\<rparr>]))))"

definition calculateAttackDamagePlan ::
  "powFn \<Rightarrow> AttackDamagePlanStep list \<Rightarrow> error + AttackDamagePlanResult" where
  "calculateAttackDamagePlan pw stepList = planLoop pw stepList (constant 0) []"

section \<open>The save path (domain)\<close>





section \<open>Notions used in the statements\<close>

text \<open>The value of a finite double, and the test that a double is finite with a value in a range.\<close>

definition val :: "double \<Rightarrow> rat" where
  "val a = (case a of Fin x \<Rightarrow> x | _ \<Rightarrow> 0)"

text \<open>
  A dice term as the parser produces it, for the calls it reaches: a count that
  \<open>repeatConvolve\<close> accepts and a number of sides that \<open>uniformDie\<close> accepts, both small
  enough for their product with a multiplier to be exact.
\<close>

fun validComponent :: "ExpressionComponent \<Rightarrow> bool" where
  "validComponent (Dice cnt sides termSign) \<longleftrightarrow> 0 \<le> cnt \<and> cnt \<le> 2 ^ 26 \<and> 1 \<le> sides \<and> sides \<le> 2 ^ 26"
| "validComponent (Constant v) \<longleftrightarrow> True"

text \<open>
  A request whose rule configuration passes \<open>validateAttackRules\<close>, whose expressions
  have valid dice terms and whose critical multiplier is a positive integer, at most
  \<open>2 ^ 26\<close>.
\<close>

definition validRequest :: "AttackDamageRequest \<Rightarrow> bool" where
  "validRequest req \<longleftrightarrow>
     validateAttackRules (rules (attack req)) = Inr ()
     \<and> list_all validComponent (asComponents (attackBonusExpression (attack req)))
     \<and> list_all validComponent (asComponents (expression (damage req)))
     \<and> isIntegerD (criticalDiceMultiplier (damage req))
     \<and> dlt (Fin 0) (criticalDiceMultiplier (damage req))
     \<and> dle (criticalDiceMultiplier (damage req)) (Fin (2 ^ 26))"

text \<open>A request with its damage roll mode and an explicit damage roll count set.\<close>

definition withRollCount :: "AttackDamageRequest \<Rightarrow> DamageDiceRollMode \<Rightarrow> double \<Rightarrow> AttackDamageRequest" where
  "withRollCount req mode c =
     req\<lparr>damage := (damage req)\<lparr>diceRollMode := Some mode, damageRollCount := Some c\<rparr>\<rparr>"

text \<open>The order statistic of a roll mode: the maximum under advantage, the minimum otherwise.\<close>

definition orderStatistic ::
  "powFn \<Rightarrow> DamageDiceRollMode \<Rightarrow> ProbabilityDistribution \<Rightarrow> double
     \<Rightarrow> error + ProbabilityDistribution" where
  "orderStatistic pw mode d c =
     (if mode = RDisadvantage then minOfIndependent pw d c else maxOfIndependent pw d c)"

text \<open>The rule configuration, the attack and the damage of the repository's tests.\<close>

definition exampleRules :: AttackRollRuleConfig where
  "exampleRules = \<lparr>dieSides = Fin 20, autoMissFaces = [1], autoCritFaces = [20]\<rparr>"

definition exampleAttack :: "AdvantageState \<Rightarrow> AttackCheckInput" where
  "exampleAttack st =
     \<lparr>armorClass = Fin 15, attackBonusExpression = ComponentArray [Constant 5],
      advantageState = st, rules = exampleRules, halflingLucky = None\<rparr>"

definition exampleDamage :: "ExpressionComponent list \<Rightarrow> DamageModel" where
  "exampleDamage cs =
     \<lparr>expression = ComponentArray cs, criticalDiceMultiplier = Fin 2, modifier = MNormal,
      diceRollMode = None, damageRollCount = None, rerollLowThreshold = None\<rparr>"

definition exampleRequest :: AttackDamageRequest where
  "exampleRequest = \<lparr>attack = exampleAttack ANormal, damage = exampleDamage [Dice 1 6 1, Constant 2]\<rparr>"

section \<open>Rounding: powers of two\<close>

lemma pow2_powi: "pow2 e = 2 powi e"
  by (simp add: pow2_def power_int_def power_inverse inverse_eq_divide divide_simps)

lemma pow2_pos [simp]: "0 < pow2 e"
  by (simp add: pow2_powi zero_less_power_int)

lemma pow2_nonneg [simp]: "0 \<le> pow2 e"
  using pow2_pos[of e] by linarith

lemma pow2_neq0 [simp]: "pow2 e \<noteq> 0"
  using pow2_pos[of e] by linarith

lemma pow2_add: "pow2 (a + b) = pow2 a * pow2 b"
  by (simp add: pow2_powi power_int_add)

lemma pow2_0 [simp]: "pow2 0 = 1"
  by (simp add: pow2_def)

lemma pow2_nat: "pow2 (int n) = 2 ^ n"
  by (simp add: pow2_def)

lemma pow2_1 [simp]: "pow2 1 = 2"
  by (simp add: pow2_def)


lemma pow2_53: "pow2 53 = of_int (2 ^ 53)" and pow2_52: "pow2 52 = of_int (2 ^ 52)"
  by (simp_all add: pow2_def)

lemma pow2_plus1: "pow2 (e + 1) = 2 * pow2 e"
  by (simp add: pow2_add)

lemma pow2_diff: "pow2 (a - b) = pow2 a / pow2 b"
proof -
  have "pow2 a = pow2 (a - b) * pow2 b" using pow2_add[of "a - b" b] by simp
  then show ?thesis by simp
qed

lemma pow2_ge1: "0 \<le> k \<Longrightarrow> 1 \<le> pow2 k"
  by (simp add: pow2_def)

lemma pow2_mono: "a \<le> b \<Longrightarrow> pow2 a \<le> pow2 b"
proof -
  assume "a \<le> b"
  then have "1 \<le> pow2 (b - a)" by (simp add: pow2_ge1)
  then have "pow2 a * 1 \<le> pow2 a * pow2 (b - a)" by (intro mult_left_mono) simp_all
  then show ?thesis using pow2_add[of a "b - a"] by simp
qed

lemma pow2_strict_mono: "a < b \<Longrightarrow> pow2 a < pow2 b"
proof -
  assume "a < b"
  then have "a + 1 \<le> b" by simp
  then have "pow2 (a + 1) \<le> pow2 b" by (rule pow2_mono)
  moreover have "pow2 a < pow2 (a + 1)" by (simp add: pow2_plus1)
  ultimately show ?thesis by linarith
qed

lemma pow2_less_iff [simp]: "pow2 a < pow2 b \<longleftrightarrow> a < b"
  using pow2_strict_mono[of a b] pow2_mono[of b a] by (auto simp: not_less[symmetric])

lemma pow2_le_iff [simp]: "pow2 a \<le> pow2 b \<longleftrightarrow> a \<le> b"
  using pow2_strict_mono[of b a] pow2_mono[of a b] by (auto simp: not_le[symmetric])

section \<open>The binary exponent of a positive rational\<close>

lemma ilog2_bounds:
  assumes "0 < x"
  shows "pow2 (ilog2 x) \<le> x" and "x < pow2 (ilog2 x + 1)"
proof -
  obtain a b where q: "quotient_of x = (a, b)" by force
  have b: "0 < b" using q by (rule quotient_of_denom_pos)
  have x: "x = of_int a / of_int b" using q by (rule quotient_of_div)
  have a: "0 < a" using assms b x by (simp add: zero_less_divide_iff)
  define k where "k = bitlen a - bitlen b"
  have la: "2 ^ nat (bitlen a - 1) \<le> a" "a < 2 ^ nat (bitlen a)"
    using bitlen_bounds[OF a] by simp_all
  have lb: "2 ^ nat (bitlen b - 1) \<le> b" "b < 2 ^ nat (bitlen b)"
    using bitlen_bounds[OF b] by simp_all
  have la1: "1 \<le> bitlen a" and lb1: "1 \<le> bitlen b"
    using a b by (simp_all add: bitlen_alt_def)
  have ra: "pow2 (bitlen a - 1) \<le> of_int a" "(of_int a :: rat) < pow2 (bitlen a)"
  proof -
    have "(of_int (2 ^ nat (bitlen a - 1)) :: rat) \<le> of_int a" using la(1) by (subst of_int_le_iff)
    then show "pow2 (bitlen a - 1) \<le> of_int a" using la1 by (simp add: pow2_def)
    have "(of_int a :: rat) < of_int (2 ^ nat (bitlen a))" using la(2) by (subst of_int_less_iff)
    then show "(of_int a :: rat) < pow2 (bitlen a)" using la1 by (simp add: pow2_def)
  qed
  have rb: "pow2 (bitlen b - 1) \<le> of_int b" "(of_int b :: rat) < pow2 (bitlen b)"
  proof -
    have "(of_int (2 ^ nat (bitlen b - 1)) :: rat) \<le> of_int b" using lb(1) by (subst of_int_le_iff)
    then show "pow2 (bitlen b - 1) \<le> of_int b" using lb1 by (simp add: pow2_def)
    have "(of_int b :: rat) < of_int (2 ^ nat (bitlen b))" using lb(2) by (subst of_int_less_iff)
    then show "(of_int b :: rat) < pow2 (bitlen b)" using lb1 by (simp add: pow2_def)
  qed
  have up: "(of_int a :: rat) < of_int b * pow2 (k + 1)"
  proof -
    have "pow2 (bitlen a) = pow2 (bitlen b - 1) * pow2 (k + 1)"
      unfolding k_def pow2_add[symmetric] by simp
    also have "\<dots> \<le> of_int b * pow2 (k + 1)" using rb(1) by (intro mult_right_mono) simp_all
    finally show ?thesis using ra(2) by linarith
  qed
  have lo: "of_int b * pow2 (k - 1) \<le> (of_int a :: rat)"
  proof -
    have "of_int b * pow2 (k - 1) \<le> pow2 (bitlen b) * pow2 (k - 1)"
      using rb(2) by (intro mult_right_mono) simp_all
    also have "\<dots> = pow2 (bitlen a - 1)"
      unfolding k_def pow2_add[symmetric] by simp
    finally show ?thesis using ra(1) by linarith
  qed
  have bpos: "0 < (of_int b :: rat)" using b by simp
  have il: "ilog2 x = (if of_int b * pow2 k \<le> (of_int a :: rat) then k else k - 1)"
    by (simp add: ilog2_def q k_def Let_def)
  show "pow2 (ilog2 x) \<le> x"
  proof (cases "of_int b * pow2 k \<le> (of_int a :: rat)")
    case True
    then show ?thesis unfolding il using bpos by (simp add: x pos_le_divide_eq mult.commute)
  next
    case False
    then show ?thesis unfolding il using bpos lo by (simp add: x pos_le_divide_eq mult.commute)
  qed
  show "x < pow2 (ilog2 x + 1)"
  proof (cases "of_int b * pow2 k \<le> (of_int a :: rat)")
    case True
    then show ?thesis unfolding il using bpos up by (simp add: x pos_divide_less_eq mult.commute)
  next
    case False
    then show ?thesis unfolding il using bpos by (simp add: x pos_divide_less_eq mult.commute)
  qed
qed

lemma ilog2_unique:
  assumes "0 < x" "pow2 e \<le> x" "x < pow2 (e + 1)"
  shows "ilog2 x = e"
proof -
  have "pow2 (ilog2 x) < pow2 (e + 1)" using ilog2_bounds(1)[OF assms(1)] assms(3) by linarith
  moreover have "pow2 e < pow2 (ilog2 x + 1)" using ilog2_bounds(2)[OF assms(1)] assms(2) by linarith
  ultimately show ?thesis by simp
qed

lemma ilog2_mono:
  assumes "0 < x" "x \<le> y"
  shows "ilog2 x \<le> ilog2 y"
proof -
  have "0 < y" using assms by linarith
  have "pow2 (ilog2 x) < pow2 (ilog2 y + 1)"
    using ilog2_bounds(1)[OF assms(1)] ilog2_bounds(2)[OF \<open>0 < y\<close>] assms(2) by linarith
  then show ?thesis by simp
qed

lemma ilog2_less:
  assumes "0 < x" "x < pow2 k"
  shows "ilog2 x < k"
proof -
  have "pow2 (ilog2 x) < pow2 k" using ilog2_bounds(1)[OF assms(1)] assms(2) by linarith
  then show ?thesis by simp
qed

section \<open>Rounding to the nearest integer, ties to even\<close>

lemma roundEven_cases:
  "roundEven y = \<lfloor>y\<rfloor> \<or> roundEven y = \<lfloor>y\<rfloor> + 1"
  by (simp add: roundEven_def Let_def)

lemma roundEven_error: "\<bar>of_int (roundEven y) - y\<bar> \<le> 1 / 2"
proof -
  have "of_int \<lfloor>y\<rfloor> \<le> y" "y < of_int \<lfloor>y\<rfloor> + 1" by linarith+
  then show ?thesis by (auto simp: roundEven_def Let_def)
qed

lemma roundEven_of_int [simp]: "roundEven (of_int m) = m"
  by (simp add: roundEven_def)

lemma roundEven_near:
  assumes "\<bar>y - of_int m\<bar> < 1 / 2"
  shows "roundEven y = m"
proof -
  have "\<bar>of_int (roundEven y) - (of_int m :: rat)\<bar> < 1"
    using roundEven_error[of y] assms by linarith
  then have "\<bar>(of_int (roundEven y - m) :: rat)\<bar> < 1" by simp
  then have "\<bar>roundEven y - m\<bar> < 1" by (metis of_int_abs of_int_less_1_iff)
  then show ?thesis by simp
qed

lemma roundEven_tie:
  assumes "y = of_int m + 1 / 2"
  shows "roundEven y = (if even m then m else m + 1)"
proof -
  have "\<lfloor>y\<rfloor> = m" unfolding assms by (simp add: floor_unique)
  then show ?thesis by (simp add: roundEven_def Let_def assms)
qed

lemma roundEven_mono:
  assumes "x \<le> y"
  shows "roundEven x \<le> roundEven y"
proof (cases "\<lfloor>x\<rfloor> = \<lfloor>y\<rfloor>")
  case True
  then show ?thesis using assms by (auto simp: roundEven_def Let_def)
next
  case False
  then have "\<lfloor>x\<rfloor> + 1 \<le> \<lfloor>y\<rfloor>" using floor_mono[OF assms] by linarith
  moreover have "roundEven x \<le> \<lfloor>x\<rfloor> + 1" using roundEven_cases[of x] by linarith
  moreover have "\<lfloor>y\<rfloor> \<le> roundEven y" using roundEven_cases[of y] by linarith
  ultimately show ?thesis by linarith
qed

lemma roundEven_uminus: "roundEven (- y) = - roundEven y"
proof (cases "y = of_int \<lfloor>y\<rfloor>")
  case True
  then obtain m :: int where "y = of_int m" by blast
  then have "- y = of_int (- m)" by simp
  then show ?thesis using \<open>y = of_int m\<close> by (metis roundEven_of_int)
next
  case False
  define f where "f = \<lfloor>y\<rfloor>"
  define d where "d = y - of_int f"
  have d: "0 < d" "d < 1" using False unfolding d_def f_def by linarith+
  have fl: "\<lfloor>- y\<rfloor> = - f - 1"
    by (rule floor_unique) (use d in \<open>simp_all add: d_def\<close>)
  have d': "- y - of_int (- f - 1) = 1 - d" by (simp add: d_def)
  have ev: "even (- f - 1) \<longleftrightarrow> odd f" by simp
  show ?thesis
    unfolding roundEven_def Let_def fl d' f_def[symmetric] d_def[symmetric] ev
    using d by auto
qed

section \<open>Rounding to a double\<close>

lemma rd_alt: "x \<noteq> 0 \<Longrightarrow> rd x = of_int (roundEven (x / pow2 (gridExp x))) * pow2 (gridExp x)"
  by (simp add: rd_def gridExp_def Let_def)

lemma rd_0 [simp]: "rd 0 = 0"
  by (simp add: rd_def)

lemma gridExp_uminus [simp]: "gridExp (- x) = gridExp x"
  by (simp add: gridExp_def)

lemma rd_uminus: "rd (- x) = - rd x"
  by (cases "x = 0") (simp_all add: rd_alt roundEven_uminus)

lemma rd_error: "\<bar>rd x - x\<bar> \<le> pow2 (gridExp x) / 2"
proof (cases "x = 0")
  case True
  then show ?thesis by simp
next
  case False
  define g where "g = pow2 (gridExp x)"
  have g: "0 < g" by (simp add: g_def)
  have "rd x - x = (of_int (roundEven (x / g)) - x / g) * g"
    using g False by (simp add: rd_alt g_def left_diff_distrib)
  then have "\<bar>rd x - x\<bar> = \<bar>of_int (roundEven (x / g)) - x / g\<bar> * g"
    using g by (simp add: abs_mult)
  also have "\<dots> \<le> 1 / 2 * g"
    using roundEven_error[of "x / g"] g by (intro mult_right_mono) simp_all
  finally show ?thesis by (simp add: g_def)
qed

lemma gridExp_le:
  assumes "\<bar>x\<bar> < pow2 (k + 1)" "- 1022 \<le> k" "x \<noteq> 0"
  shows "gridExp x \<le> k - 52"
proof -
  have "ilog2 \<bar>x\<bar> < k + 1" using assms by (intro ilog2_less) simp_all
  then show ?thesis using assms(2) by (simp add: gridExp_def)
qed

lemma rd_error_below:
  assumes "\<bar>x\<bar> < pow2 (k + 1)" "- 1022 \<le> k"
  shows "\<bar>rd x - x\<bar> \<le> pow2 (k - 53)"
proof (cases "x = 0")
  case True
  then show ?thesis by simp
next
  case False
  have "pow2 (gridExp x) \<le> pow2 (k - 52)" using gridExp_le[OF assms False] by simp
  then have "pow2 (gridExp x) / 2 \<le> pow2 (k - 52) / 2" by simp
  also have "\<dots> = pow2 (k - 53)" using pow2_plus1[of "k - 53"] by simp
  finally show ?thesis using rd_error[of x] by linarith
qed

lemma rd_nonneg: "0 \<le> x \<Longrightarrow> 0 \<le> rd x"
proof (cases "x = 0")
  case False
  assume "0 \<le> x"
  then have "0 \<le> x / pow2 (gridExp x)" by simp
  then have "roundEven 0 \<le> roundEven (x / pow2 (gridExp x))" by (rule roundEven_mono)
  then have "0 \<le> roundEven (x / pow2 (gridExp x))" by (simp add: roundEven_def)
  then show ?thesis using False by (simp add: rd_alt)
qed simp

lemma rd_exact:
  assumes "x = of_int m * pow2 e" "\<bar>m\<bar> < 2 ^ 53" "- 1074 \<le> e"
  shows "rd x = x"
proof (cases "x = 0")
  case True
  then show ?thesis by simp
next
  case False
  then have m0: "m \<noteq> 0" using assms(1) by auto
  have xpos: "0 < \<bar>x\<bar>" using False by simp
  have j: "gridExp x \<le> e"
  proof (cases "- 1022 \<le> ilog2 \<bar>x\<bar>")
    case True
    have "pow2 (ilog2 \<bar>x\<bar>) \<le> \<bar>x\<bar>" using ilog2_bounds(1)[OF xpos] .
    also have "\<bar>x\<bar> = of_int \<bar>m\<bar> * pow2 e" by (simp add: assms(1) abs_mult)
    also have "\<dots> < of_int (2 ^ 53) * pow2 e"
      using assms(2) by (intro mult_strict_right_mono) (simp_all only: of_int_less_iff pow2_pos)
    also have "\<dots> = pow2 (53 + e)" by (simp only: pow2_add pow2_53)
    finally have "ilog2 \<bar>x\<bar> < 53 + e" by simp
    then show ?thesis using True by (simp add: gridExp_def)
  next
    case False
    then show ?thesis using assms(3) by (simp add: gridExp_def)
  qed
  define g where "g = gridExp x"
  have "x / pow2 g = of_int m * pow2 (e - g)" by (simp add: assms(1) pow2_diff)
  also have "pow2 (e - g) = of_int (2 ^ nat (e - g))" using j by (simp add: pow2_def g_def)
  finally have "x / pow2 g = of_int (m * 2 ^ nat (e - g))" by simp
  then have "of_int (roundEven (x / pow2 g)) = x / pow2 g" by (simp only: roundEven_of_int)
  then show ?thesis using False by (simp add: rd_alt g_def)
qed

lemma rd_of_int: "\<bar>k\<bar> \<le> 2 ^ 53 \<Longrightarrow> rd (of_int k) = of_int k"
proof (cases "\<bar>k\<bar> < 2 ^ 53")
  case True
  then show ?thesis using rd_exact[of "of_int k" k 0] by simp
next
  case False
  assume "\<bar>k\<bar> \<le> 2 ^ 53"
  then have "\<bar>k\<bar> = 2 ^ 53" using False by simp
  then have "k = 2 ^ 53 \<or> k = - (2 ^ 53)" by linarith
  then have "(of_int k :: rat) = of_int (k div 2) * pow2 1 \<and> \<bar>k div 2\<bar> < 2 ^ 53"
    by auto
  then show ?thesis using rd_exact[of "of_int k" "k div 2" 1] by simp
qed

lemma rd_pow2: "- 1074 \<le> e \<Longrightarrow> rd (pow2 e) = pow2 e"
  using rd_exact[of "pow2 e" 1 e] by simp

text \<open>The result of a rounding is on the grid of its argument, within one binade.\<close>

lemma roundEven_le_of_int: "y \<le> of_int m \<Longrightarrow> roundEven y \<le> m"
  using roundEven_mono[of y "of_int m"] by simp

lemma roundEven_ge_of_int: "of_int m \<le> y \<Longrightarrow> m \<le> roundEven y"
  using roundEven_mono[of "of_int m" y] by simp

lemma rd_upper:
  assumes "0 < x"
  shows "rd x \<le> pow2 (gridExp x + 53)"
proof -
  have x0: "x \<noteq> 0" "0 < \<bar>x\<bar>" using assms by simp_all
  have "x < pow2 (ilog2 \<bar>x\<bar> + 1)" using ilog2_bounds(2)[OF x0(2)] assms by simp
  also have "\<dots> \<le> pow2 (gridExp x + 53)" by (simp add: gridExp_def)
  finally have "x / pow2 (gridExp x) \<le> pow2 53"
    by (simp add: pos_divide_le_eq pow2_add mult.commute)
  then have "x / pow2 (gridExp x) \<le> of_int (2 ^ 53)" by (simp only: pow2_53)
  then have "roundEven (x / pow2 (gridExp x)) \<le> 2 ^ 53" by (rule roundEven_le_of_int)
  then have "(of_int (roundEven (x / pow2 (gridExp x))) :: rat) \<le> of_int (2 ^ 53)"
    by (simp only: of_int_le_iff)
  then have "rd x \<le> of_int (2 ^ 53) * pow2 (gridExp x)"
    unfolding rd_alt[OF x0(1)] by (intro mult_right_mono) simp_all
  then show ?thesis by (simp only: pow2_add pow2_53 mult.commute)
qed

lemma rd_lower:
  assumes "0 < x" "- 1022 \<le> ilog2 x"
  shows "pow2 (gridExp x + 52) \<le> rd x"
proof -
  have x0: "x \<noteq> 0" "\<bar>x\<bar> = x" using assms by simp_all
  have g: "gridExp x + 52 = ilog2 x" using assms(2) by (simp add: gridExp_def x0)
  have "pow2 (gridExp x + 52) \<le> x" using ilog2_bounds(1)[OF assms(1)] by (simp add: g)
  then have "pow2 52 \<le> x / pow2 (gridExp x)"
    by (simp add: pos_le_divide_eq pow2_add mult.commute)
  then have "of_int (2 ^ 52) \<le> x / pow2 (gridExp x)" by (simp only: pow2_52)
  then have "2 ^ 52 \<le> roundEven (x / pow2 (gridExp x))" by (rule roundEven_ge_of_int)
  then have "(of_int (2 ^ 52) :: rat) \<le> of_int (roundEven (x / pow2 (gridExp x)))"
    by (simp only: of_int_le_iff)
  then have "of_int (2 ^ 52) * pow2 (gridExp x) \<le> rd x"
    unfolding rd_alt[OF x0(1)] by (intro mult_right_mono) simp_all
  then show ?thesis by (simp only: pow2_add pow2_52 mult.commute)
qed

lemma rd_mono_pos:
  assumes "0 < x" "x \<le> y"
  shows "rd x \<le> rd y"
proof -
  have y: "0 < y" using assms by linarith
  have ax: "\<bar>x\<bar> = x" "\<bar>y\<bar> = y" "x \<noteq> 0" "y \<noteq> 0" using assms y by simp_all
  have le: "gridExp x \<le> gridExp y"
    using ilog2_mono[OF assms] by (simp add: gridExp_def ax)
  show ?thesis
  proof (cases "gridExp x = gridExp y")
    case True
    have "x / pow2 (gridExp y) \<le> y / pow2 (gridExp y)"
      using assms(2) by (simp add: divide_right_mono)
    then have "roundEven (x / pow2 (gridExp y)) \<le> roundEven (y / pow2 (gridExp y))"
      by (rule roundEven_mono)
    then have "(of_int (roundEven (x / pow2 (gridExp y))) :: rat)
                 \<le> of_int (roundEven (y / pow2 (gridExp y)))" by (simp only: of_int_le_iff)
    then show ?thesis
      unfolding rd_alt[OF ax(3)] rd_alt[OF ax(4)] True by (intro mult_right_mono) simp_all
  next
    case False
    then have lt: "gridExp x < gridExp y" using le by simp
    then have "- 1022 < ilog2 y" by (simp add: gridExp_def ax split: if_splits) linarith
    then have "pow2 (gridExp y + 52) \<le> rd y" using rd_lower[OF y] by simp
    moreover have "rd x \<le> pow2 (gridExp x + 53)" using rd_upper[OF assms(1)] .
    moreover have "pow2 (gridExp x + 53) \<le> pow2 (gridExp y + 52)" using lt by simp
    ultimately show ?thesis by linarith
  qed
qed

lemma rd_mono:
  assumes "x \<le> y"
  shows "rd x \<le> rd y"
proof -
  consider "0 < x" | "x \<le> 0" "0 \<le> y" | "y < 0" using assms by linarith
  then show ?thesis
  proof cases
    case 1
    then show ?thesis using assms by (rule rd_mono_pos)
  next
    case 2
    have "rd x \<le> 0" using rd_nonneg[of "- x"] 2(1) by (simp add: rd_uminus)
    then show ?thesis using rd_nonneg[OF 2(2)] by linarith
  next
    case 3
    then have "rd (- y) \<le> rd (- x)" using assms by (intro rd_mono_pos) simp_all
    then show ?thesis by (simp add: rd_uminus)
  qed
qed

lemma rd_idem: "rd (rd x) = rd x"
proof (cases "x = 0")
  case True
  then show ?thesis by simp
next
  case False
  define g where "g = gridExp x"
  define M where "M = roundEven (x / pow2 g)"
  have r: "rd x = of_int M * pow2 g" using False by (simp add: rd_alt g_def M_def)
  have g74: "- 1074 \<le> g" by (simp add: g_def gridExp_def)
  have ax: "0 < \<bar>x\<bar>" using False by simp
  have "\<bar>x\<bar> < pow2 (ilog2 \<bar>x\<bar> + 1)" using ilog2_bounds(2)[OF ax] .
  also have "\<dots> \<le> pow2 (g + 53)" by (simp add: g_def gridExp_def)
  finally have "\<bar>x\<bar> / pow2 g \<le> pow2 53"
    by (simp add: pos_divide_le_eq pow2_add mult.commute)
  then have b: "\<bar>x / pow2 g\<bar> \<le> of_int (2 ^ 53)" by (simp add: pow2_53)
  have "M \<le> 2 ^ 53" unfolding M_def using b by (intro roundEven_le_of_int) linarith
  moreover have "- (2 ^ 53) \<le> M"
    unfolding M_def using b roundEven_ge_of_int[of "- (2 ^ 53)" "x / pow2 g"] by linarith
  ultimately have M: "\<bar>M\<bar> \<le> 2 ^ 53" by linarith
  show ?thesis
  proof (cases "\<bar>M\<bar> < 2 ^ 53")
    case True
    then show ?thesis using rd_exact[OF r True g74] by simp
  next
    case False
    then have "M = 2 ^ 53 \<or> M = - (2 ^ 53)" using M by linarith
    then have "rd x = of_int (M div 2) * pow2 (g + 1) \<and> \<bar>M div 2\<bar> < 2 ^ 53"
      by (auto simp: r pow2_plus1)
    then show ?thesis using rd_exact[of "rd x" "M div 2" "g + 1"] g74 by simp
  qed
qed

lemma rd_abs_error_2:
  assumes "\<bar>x\<bar> \<le> 2"
  shows "\<bar>rd x - x\<bar> \<le> 1 / 2 ^ 53"
proof (cases "\<bar>x\<bar> < 2")
  case True
  then have "\<bar>x\<bar> < pow2 (0 + 1)" by (simp add: pow2_def)
  then have "\<bar>rd x - x\<bar> \<le> pow2 (0 - 53)" by (rule rd_error_below) simp
  then show ?thesis by (simp add: pow2_def)
next
  case False
  then have "x = 2 \<or> x = - 2" using assms by linarith
  then have "rd x = x" using rd_of_int[of 2] rd_of_int[of "- 2"] by auto
  then show ?thesis by simp
qed

lemma rd_bound:
  assumes "\<bar>x\<bar> \<le> of_int k" "\<bar>k\<bar> \<le> 2 ^ 53"
  shows "\<bar>rd x\<bar> \<le> of_int k"
proof -
  have "rd x \<le> rd (of_int k)" using assms(1) by (intro rd_mono) linarith
  moreover have "rd (- of_int k) \<le> rd x" using assms(1) by (intro rd_mono) linarith
  ultimately show ?thesis using rd_of_int[OF assms(2)] by (simp add: rd_uminus abs_le_iff)
qed

section \<open>Operations that do not overflow\<close>

lemma roundDouble_Fin:
  assumes "\<bar>x\<bar> \<le> pow2 1023"
  shows "roundDouble x = Fin (rd x)"
proof -
  have "rd x \<le> rd (pow2 1023)" using assms by (intro rd_mono) linarith
  moreover have "rd (- pow2 1023) \<le> rd x" using assms by (intro rd_mono) linarith
  ultimately have "\<bar>rd x\<bar> \<le> pow2 1023" by (simp add: rd_uminus rd_pow2 abs_le_iff)
  then have "\<bar>rd x\<bar> < pow2 1024" using pow2_strict_mono[of 1023 1024] by linarith
  then have "rd x \<noteq> 0 \<Longrightarrow> ilog2 \<bar>rd x\<bar> < 1024" by (intro ilog2_less) simp_all
  then show ?thesis by (auto simp: roundDouble_def Let_def)
qed

lemma small_le_pow2_1023: "\<bar>x\<bar> \<le> 2 ^ 60 \<Longrightarrow> \<bar>x\<bar> \<le> pow2 1023"
proof -
  assume "\<bar>x\<bar> \<le> 2 ^ 60"
  moreover have "(2 :: rat) ^ 60 = pow2 60" by (simp add: pow2_def)
  moreover have "pow2 60 \<le> pow2 1023" by simp
  ultimately show ?thesis by linarith
qed

lemma fadd_Fin: "\<bar>a + b\<bar> \<le> 2 ^ 60 \<Longrightarrow> fadd (Fin a) (Fin b) = Fin (rd (a + b))"
  by (simp add: fadd_def roundDouble_Fin small_le_pow2_1023)

lemma fsub_Fin: "\<bar>a - b\<bar> \<le> 2 ^ 60 \<Longrightarrow> fsub (Fin a) (Fin b) = Fin (rd (a - b))"
  by (simp add: fsub_def fneg_def fadd_def roundDouble_Fin small_le_pow2_1023)

lemma fmul_Fin: "\<bar>a * b\<bar> \<le> 2 ^ 60 \<Longrightarrow> fmul (Fin a) (Fin b) = Fin (rd (a * b))"
  by (simp add: fmul_def roundDouble_Fin small_le_pow2_1023)

lemma fdiv_Fin:
  assumes "b \<noteq> 0" "\<bar>a / b\<bar> \<le> 2 ^ 60"
  shows "fdiv (Fin a) (Fin b) = Fin (rd (a / b))"
proof -
  have "roundDouble (a / b) = Fin (rd (a / b))"
    using assms(2) by (intro roundDouble_Fin small_le_pow2_1023)
  then show ?thesis using assms(1) by (simp add: fdiv_def)
qed

lemma ofInt_Fin: "\<bar>k\<bar> \<le> 2 ^ 53 \<Longrightarrow> ofInt k = Fin (of_int k)"
proof -
  assume k: "\<bar>k\<bar> \<le> 2 ^ 53"
  then have "\<bar>(of_int k :: rat)\<bar> \<le> of_int (2 ^ 53)" by (simp only: of_int_abs[symmetric] of_int_le_iff)
  then have "\<bar>(of_int k :: rat)\<bar> \<le> 2 ^ 60" by simp
  then show ?thesis using k by (simp add: ofInt_def roundDouble_Fin small_le_pow2_1023 rd_of_int)
qed

section \<open>Checking a rounding\<close>

lemma pow2_numeral: "pow2 (numeral n) = 2 ^ numeral n"
  by (simp add: pow2_def)

lemma pow2_neg_numeral: "pow2 (- numeral n) = 1 / 2 ^ numeral n"
  by (simp add: pow2_def)

lemma pow2_minus1: "pow2 (- 1) = 1 / 2"
  by (simp add: pow2_def)

lemmas pow2_eval = pow2_numeral pow2_neg_numeral pow2_minus1

lemma rd_check:
  assumes "0 < x" "pow2 e \<le> x" "x < pow2 (e + 1)" "- 1022 \<le> e"
    "\<bar>x / pow2 (e - 52) - of_int m\<bar> < 1 / 2"
  shows "rd x = of_int m * pow2 (e - 52)"
proof -
  have "ilog2 \<bar>x\<bar> = e" using assms(1,2,3) by (intro ilog2_unique) simp_all
  then have g: "gridExp x = e - 52" using assms(4) by (simp add: gridExp_def)
  show ?thesis using assms(1) roundEven_near[OF assms(5)] by (simp add: rd_alt g)
qed

lemma rd_check_tie:
  assumes "0 < x" "pow2 e \<le> x" "x < pow2 (e + 1)" "- 1022 \<le> e"
    "x / pow2 (e - 52) = of_int m + 1 / 2"
  shows "rd x = of_int (if even m then m else m + 1) * pow2 (e - 52)"
proof -
  have "ilog2 \<bar>x\<bar> = e" using assms(1,2,3) by (intro ilog2_unique) simp_all
  then have g: "gridExp x = e - 52" using assms(4) by (simp add: gridExp_def)
  show ?thesis using assms(1) roundEven_tie[OF assms(5)] by (simp add: rd_alt g)
qed

section \<open>Which calls return\<close>

lemma ofInt_small: "\<bar>k\<bar> \<le> 2 ^ 26 \<Longrightarrow> ofInt k = Fin (of_int k)"
  by (rule ofInt_Fin) simp

lemma isIntegerD_Fin_of_int [simp]: "isIntegerD (Fin (of_int k))"
  by (simp add: isIntegerD_def)

lemma toInt_Fin_of_int [simp]: "toInt (Fin (of_int k)) = k"
  by (simp add: toInt_def)

lemma dle_Fin [simp]: "dle (Fin a) (Fin b) \<longleftrightarrow> a \<le> b"
  by (simp add: dle_def)

lemma dlt_Fin [simp]: "dlt (Fin a) (Fin b) \<longleftrightarrow> a < b"
  by (simp add: dlt_def)

lemma isIntegerD_cases:
  assumes "isIntegerD a"
  obtains k where "a = Fin (of_int k)"
  using assms by (cases a) (auto simp: isIntegerD_def intro: that[of "\<lfloor>x\<rfloor>" for x] elim: sym[THEN that])

lemma uniformDie_returns: "1 \<le> s \<Longrightarrow> s \<le> 2 ^ 26 \<Longrightarrow> \<exists>d. uniformDie (ofInt s) = Inr d"
  by (simp add: uniformDie_def ofInt_small)

lemma repeatConvolve_returns: "0 \<le> c \<Longrightarrow> \<exists>d. repeatConvolve base (Fin (of_int c)) = Inr d"
  by (simp add: repeatConvolve_def)

lemma rerollLow_returns:
  "1 \<le> s \<Longrightarrow> s \<le> 2 ^ 26 \<Longrightarrow> \<exists>d. buildRerollLowDieDistribution s t = Inr d"
  using uniformDie_returns[of s]
  by (auto simp: buildRerollLowDieDistribution_def Let_def split: option.splits)

lemma attackBonusLoop_returns:
  "list_all validComponent cs \<Longrightarrow> \<exists>d. attackBonusLoop cs d0 = Inr d"
proof (induction cs arbitrary: d0)
  case Nil
  then show ?case by simp
next
  case (Cons c cs)
  show ?case
  proof (cases c)
    case (Constant v)
    then show ?thesis using Cons by simp
  next
    case (Dice cnt sides termSign)
    then have v: "0 \<le> cnt" "cnt \<le> 2 ^ 26" "1 \<le> sides" "sides \<le> 2 ^ 26" and r: "list_all validComponent cs"
      using Cons.prems by simp_all
    obtain die where die: "uniformDie (ofInt sides) = Inr die"
      using uniformDie_returns[OF v(3,4)] by blast
    obtain dice where dice: "repeatConvolve die (ofInt cnt) = Inr dice"
      using repeatConvolve_returns[OF v(1), of die] v(1,2) by (auto simp: ofInt_small)
    show ?thesis using Dice die dice Cons.IH[OF r] by simp
  qed
qed

lemma attackOutcome_returns:
  assumes "validateAttackRules (rules input) = Inr ()"
    and "list_all validComponent (asComponents (attackBonusExpression input))"
  shows "\<exists>r. calculateAttackOutcomeProbabilities input = Inr r"
proof -
  obtain bonus where "buildAttackBonusDistribution (attackBonusExpression input) = Inr bonus"
    using assms(2) attackBonusLoop_returns unfolding buildAttackBonusDistribution_def by blast
  then show ?thesis
    using assms(1) by (simp add: calculateAttackOutcomeProbabilities_def Let_def)
qed

lemma fmul_small_ints:
  assumes "\<bar>a\<bar> \<le> 2 ^ 26" "\<bar>b\<bar> \<le> 2 ^ 26"
  shows "fmul (Fin (of_int a)) (Fin (of_int b)) = Fin (of_int (a * b))"
proof -
  have "\<bar>a * b\<bar> \<le> 2 ^ 26 * 2 ^ 26" unfolding abs_mult using assms by (intro mult_mono) simp_all
  then have ab: "\<bar>a * b\<bar> \<le> 2 ^ 53" by simp
  then have "\<bar>(of_int (a * b) :: rat)\<bar> \<le> of_int (2 ^ 53)"
    by (simp only: of_int_abs[symmetric] of_int_le_iff)
  then have "\<bar>(of_int a :: rat) * of_int b\<bar> \<le> 2 ^ 60" by simp
  then have "fmul (Fin (of_int a)) (Fin (of_int b)) = Fin (rd (of_int a * of_int b))"
    by (rule fmul_Fin)
  also have "rd (of_int a * of_int b) = of_int (a * b)"
    using rd_of_int[OF ab] by simp
  finally show ?thesis .
qed

lemma damageLoop_returns:
  assumes "0 \<le> m" "m \<le> 2 ^ 26"
  shows "list_all validComponent cs \<Longrightarrow> \<exists>d. damageLoop (Fin (of_int m)) t cs d0 = Inr d"
proof (induction cs arbitrary: d0)
  case Nil
  then show ?case by simp
next
  case (Cons c cs)
  show ?case
  proof (cases c)
    case (Constant v)
    then show ?thesis using Cons by simp
  next
    case (Dice cnt sides termSign)
    then have v: "0 \<le> cnt" "cnt \<le> 2 ^ 26" "1 \<le> sides" "sides \<le> 2 ^ 26" and r: "list_all validComponent cs"
      using Cons.prems by simp_all
    obtain die where die: "buildRerollLowDieDistribution sides t = Inr die"
      using rerollLow_returns[OF v(3,4)] by blast
    have e: "fmul (ofInt cnt) (Fin (of_int m)) = Fin (of_int (cnt * m))"
      using v(1,2) assms by (simp add: ofInt_small fmul_small_ints)
    obtain dice where dice: "repeatConvolve die (Fin (of_int (cnt * m))) = Inr dice"
      using repeatConvolve_returns[of "cnt * m" die] v(1) assms(1) by auto
    show ?thesis using Dice die dice e Cons.IH[OF r] by (simp add: Let_def)
  qed
qed

lemma buildDamage_returns:
  assumes "list_all validComponent (asComponents e)" "1 \<le> m" "m \<le> 2 ^ 26"
  shows "\<exists>d. buildDamageDistribution e (Fin (of_int m)) t = Inr d"
  using damageLoop_returns[of m "asComponents e" t "constant 0"] assms
  by (simp add: buildDamageDistribution_def)

section \<open>The damage roll count\<close>

lemma resolveDamageRollCount_Fin:
  "resolveDamageRollCount mode (Some (Fin x)) = Fin (of_int (max 1 \<lfloor>x\<rfloor>))"
  by (simp add: resolveDamageRollCount_def dfloor_def dmax_def max_def)

lemma resolveDamageRollCount_special:
  "resolveDamageRollCount mode (Some NaN) = NaN"
  "resolveDamageRollCount mode (Some PInf) = PInf"
  "resolveDamageRollCount mode (Some NInf) = Fin 1"
  by (simp_all add: resolveDamageRollCount_def dfloor_def dmax_def dle_def)

lemma applyDamageDiceRollMode_int:
  assumes "mode \<noteq> RNormal"
  shows "applyDamageDiceRollMode pw d mode (Some (Fin (of_int k))) =
           (if k \<le> 1 then Inr d else orderStatistic pw mode d (Fin (of_int k)))"
  using assms by (cases mode) (simp_all add: applyDamageDiceRollMode_def orderStatistic_def)

lemma orderStatistic_returns:
  "2 \<le> k \<Longrightarrow> \<exists>r. orderStatistic pw mode d (Fin (of_int k)) = Inr r"
  by (simp add: orderStatistic_def maxOfIndependent_def minOfIndependent_def)

lemma orderStatistic_rejects:
  "orderStatistic pw mode d NaN = Inl (Error ''count must be a positive integer'')"
  "orderStatistic pw mode d PInf = Inl (Error ''count must be a positive integer'')"
  by (simp_all add: orderStatistic_def maxOfIndependent_def minOfIndependent_def isIntegerD_def)

lemma applyDamageDiceRollMode_rejects:
  assumes "mode \<noteq> RNormal" "c = NaN \<or> c = PInf"
  shows "applyDamageDiceRollMode pw d mode (Some c) = Inl (Error ''count must be a positive integer'')"
  using assms
  by (cases mode)
     (auto simp: applyDamageDiceRollMode_def maxOfIndependent_def minOfIndependent_def
        isIntegerD_def dle_def)


text \<open>
  What \<open>calculateAttackDamage\<close> does with a valid request whose damage roll mode is not
  normal and whose damage roll count is explicit: the count is resolved, and each branch
  is the built distribution passed through the roll mode with the resolved count.
\<close>

lemma calculateAttackDamage_explicit_count:
  assumes v: "validRequest req" and m: "mode \<noteq> RNormal"
  shows "\<exists>probs bh bc.
           calculateAttackOutcomeProbabilities (attack req) = Inr probs
         \<and> buildDamageDistribution (expression (damage req)) (Fin 1)
               (rerollLowThreshold (damage req)) = Inr bh
         \<and> buildDamageDistribution (expression (damage req)) (criticalDiceMultiplier (damage req))
               (rerollLowThreshold (damage req)) = Inr bc
         \<and> calculateAttackDamage pw (withRollCount req mode c) =
             (case applyDamageDiceRollMode pw bh mode (Some (resolveDamageRollCount mode (Some c))) of
                Inl e \<Rightarrow> Inl e
              | Inr rh \<Rightarrow>
                 (case applyDamageDiceRollMode pw bc mode (Some (resolveDamageRollCount mode (Some c))) of
                    Inl e \<Rightarrow> Inl e
                  | Inr rc \<Rightarrow>
                     Inr \<lparr>probabilities = probs,
                          hitDamageDistribution =
                            applyModifierToDistribution rh (modifier (damage req)),
                          criticalDamageDistribution =
                            applyModifierToDistribution rc (modifier (damage req)),
                          totalDamageDistribution = fromEntries
                            ((0, miss probs)
                             # map (\<lambda>entry. (outcome entry, fmul (probability entry) (hit probs)))
                                 (entries (applyModifierToDistribution rh (modifier (damage req))))
                             @ map (\<lambda>entry. (outcome entry, fmul (probability entry) (critical probs)))
                                 (entries (applyModifierToDistribution rc (modifier (damage req))))),
                          expectedDamageOnHit =
                            expectation (applyModifierToDistribution rh (modifier (damage req))),
                          expectedDamageOnCritical =
                            expectation (applyModifierToDistribution rc (modifier (damage req))),
                          expectedDamagePerAttack =
                            fadd (fmul (hit probs)
                                    (expectation (applyModifierToDistribution rh (modifier (damage req)))))
                                 (fmul (critical probs)
                                    (expectation (applyModifierToDistribution rc (modifier (damage req)))))\<rparr>))"
proof -
  obtain probs where p: "calculateAttackOutcomeProbabilities (attack req) = Inr probs"
    using attackOutcome_returns v unfolding validRequest_def by blast
  from v obtain k where k: "criticalDiceMultiplier (damage req) = Fin (of_int k)"
    unfolding validRequest_def by (blast elim: isIntegerD_cases)
  from v k have kb: "1 \<le> k" "k \<le> 2 ^ 26"
    unfolding validRequest_def
    by (simp_all, (metis of_int_le_iff of_int_numeral of_int_power)?)
  have cs: "list_all validComponent (asComponents (expression (damage req)))"
    using v unfolding validRequest_def by blast
  obtain bh where bh: "buildDamageDistribution (expression (damage req)) (Fin 1)
       (rerollLowThreshold (damage req)) = Inr bh"
    using buildDamage_returns[OF cs, of 1] by auto
  obtain bc where bc: "buildDamageDistribution (expression (damage req)) (criticalDiceMultiplier (damage req))
       (rerollLowThreshold (damage req)) = Inr bc"
    using buildDamage_returns[OF cs kb] k by auto
  have "calculateAttackDamage pw (withRollCount req mode c) =
             (case applyDamageDiceRollMode pw bh mode (Some (resolveDamageRollCount mode (Some c))) of
                Inl e \<Rightarrow> Inl e
              | Inr rh \<Rightarrow>
                 (case applyDamageDiceRollMode pw bc mode (Some (resolveDamageRollCount mode (Some c))) of
                    Inl e \<Rightarrow> Inl e
                  | Inr rc \<Rightarrow>
                     Inr \<lparr>probabilities = probs,
                          hitDamageDistribution =
                            applyModifierToDistribution rh (modifier (damage req)),
                          criticalDamageDistribution =
                            applyModifierToDistribution rc (modifier (damage req)),
                          totalDamageDistribution = fromEntries
                            ((0, miss probs)
                             # map (\<lambda>entry. (outcome entry, fmul (probability entry) (hit probs)))
                                 (entries (applyModifierToDistribution rh (modifier (damage req))))
                             @ map (\<lambda>entry. (outcome entry, fmul (probability entry) (critical probs)))
                                 (entries (applyModifierToDistribution rc (modifier (damage req))))),
                          expectedDamageOnHit =
                            expectation (applyModifierToDistribution rh (modifier (damage req))),
                          expectedDamageOnCritical =
                            expectation (applyModifierToDistribution rc (modifier (damage req))),
                          expectedDamagePerAttack =
                            fadd (fmul (hit probs)
                                    (expectation (applyModifierToDistribution rh (modifier (damage req)))))
                                 (fmul (critical probs)
                                    (expectation (applyModifierToDistribution rc (modifier (damage req)))))\<rparr>))"
    using p bh bc
    by (simp add: calculateAttackDamage_def withRollCount_def rawBranchDistribution_def
          buildNonCriticalDamageModel_def buildCriticalDamageModel_def resolveDiceRollMode_def
          Let_def split: sum.splits)
  with p bh bc show ?thesis by blast
qed

lemma calculateAttackDamage_count_returns:
  assumes v: "validRequest req" and m: "mode \<noteq> RNormal"
  shows "\<exists>r. calculateAttackDamage pw (withRollCount req mode (Fin x)) = Inr r"
proof -
  have a: "\<exists>r. applyDamageDiceRollMode pw d mode (Some (resolveDamageRollCount mode (Some (Fin x)))) = Inr r"
    for d
    unfolding resolveDamageRollCount_Fin applyDamageDiceRollMode_int[OF m]
    using orderStatistic_returns[of "max 1 \<lfloor>x\<rfloor>" pw mode d] by auto
  from calculateAttackDamage_explicit_count[OF v m, of pw "Fin x"]
  obtain probs bh bc where e: "calculateAttackDamage pw (withRollCount req mode (Fin x)) =
             (case applyDamageDiceRollMode pw bh mode (Some (resolveDamageRollCount mode (Some (Fin x)))) of
                Inl e \<Rightarrow> Inl e
              | Inr rh \<Rightarrow>
                 (case applyDamageDiceRollMode pw bc mode (Some (resolveDamageRollCount mode (Some (Fin x)))) of
                    Inl e \<Rightarrow> Inl e
                  | Inr rc \<Rightarrow>
                     Inr \<lparr>probabilities = probs,
                          hitDamageDistribution =
                            applyModifierToDistribution rh (modifier (damage req)),
                          criticalDamageDistribution =
                            applyModifierToDistribution rc (modifier (damage req)),
                          totalDamageDistribution = fromEntries
                            ((0, miss probs)
                             # map (\<lambda>entry. (outcome entry, fmul (probability entry) (hit probs)))
                                 (entries (applyModifierToDistribution rh (modifier (damage req))))
                             @ map (\<lambda>entry. (outcome entry, fmul (probability entry) (critical probs)))
                                 (entries (applyModifierToDistribution rc (modifier (damage req))))),
                          expectedDamageOnHit =
                            expectation (applyModifierToDistribution rh (modifier (damage req))),
                          expectedDamageOnCritical =
                            expectation (applyModifierToDistribution rc (modifier (damage req))),
                          expectedDamagePerAttack =
                            fadd (fmul (hit probs)
                                    (expectation (applyModifierToDistribution rh (modifier (damage req)))))
                                 (fmul (critical probs)
                                    (expectation (applyModifierToDistribution rc (modifier (damage req)))))\<rparr>))"
    by blast
  obtain rh where rh: "applyDamageDiceRollMode pw bh mode (Some (resolveDamageRollCount mode (Some (Fin x)))) = Inr rh"
    using a by blast
  obtain rc where rc: "applyDamageDiceRollMode pw bc mode (Some (resolveDamageRollCount mode (Some (Fin x)))) = Inr rc"
    using a by blast
  show ?thesis unfolding e rh rc by simp
qed

lemma validRequest_exampleRequest: "validRequest exampleRequest"
  by (simp add: validRequest_def exampleRequest_def exampleAttack_def exampleDamage_def
        exampleRules_def validateAttackRules_def isIntegerD_def)

section \<open>The damage roll count of a request\<close>

text \<open>
  Claim C7 reads: under advantage or disadvantage damage rolls, an explicit
  \<open>damageRollCount\<close> that is not positive or not an integer raises an error and is never
  coerced. The code coerces: the requests of the repository's example with the counts
  \<open>0\<close>, \<open>-3\<close> and \<open>5/2\<close> return a result.
\<close>

theorem damageRollCount_not_rejected:
  "\<not> isl (calculateAttackDamage powRounded (withRollCount exampleRequest RAdvantage (Fin 0)))
   \<and> \<not> isl (calculateAttackDamage powRounded (withRollCount exampleRequest RAdvantage (Fin (- 3))))
   \<and> \<not> isl (calculateAttackDamage powRounded (withRollCount exampleRequest RDisadvantage (Fin (5 / 2))))"
proof -
  have "\<not> isl (calculateAttackDamage powRounded (withRollCount exampleRequest mode (Fin x)))"
    if "mode \<noteq> RNormal" for mode x
    using calculateAttackDamage_count_returns[OF validRequest_exampleRequest that, of powRounded x]
    by auto
  then show ?thesis by simp
qed

text \<open>
  Claim C7, as the code has it. For a valid request, a damage roll mode other than normal
  and every power function: the attack probabilities and the two built damage
  distributions (multiplier 1 and the critical multiplier) exist, and

  \<^item> for every finite count \<open>x\<close> the call returns, with these probabilities; with
    \<open>k = max 1 \<lfloor>x\<rfloor>\<close>, if \<open>k = 1\<close> each branch is the built distribution itself under the
    damage modifier, and otherwise each branch is the order statistic of the built
    distribution with count \<open>k\<close> (the maximum under advantage, the minimum under
    disadvantage), under the damage modifier;
  \<^item> for the count \<open>-Infinity\<close> the call returns the branches of count 1;
  \<^item> for the counts \<open>NaN\<close> and \<open>+Infinity\<close>, and for these only, the call raises
    \<open>count must be a positive integer\<close>.
\<close>

theorem damageRollCount_coerced:
  assumes "validRequest req" and "mode \<noteq> RNormal"
  shows "\<exists>probs bh bc.
           calculateAttackOutcomeProbabilities (attack req) = Inr probs
         \<and> buildDamageDistribution (expression (damage req)) (Fin 1)
               (rerollLowThreshold (damage req)) = Inr bh
         \<and> buildDamageDistribution (expression (damage req)) (criticalDiceMultiplier (damage req))
               (rerollLowThreshold (damage req)) = Inr bc
         \<and> (\<forall>x. \<exists>r. calculateAttackDamage pw (withRollCount req mode (Fin x)) = Inr r
                 \<and> probabilities r = probs
                 \<and> (if max 1 \<lfloor>x\<rfloor> = 1
                    then hitDamageDistribution r
                           = applyModifierToDistribution bh (modifier (damage req))
                       \<and> criticalDamageDistribution r
                           = applyModifierToDistribution bc (modifier (damage req))
                    else \<exists>oh oc.
                           orderStatistic pw mode bh (Fin (of_int (max 1 \<lfloor>x\<rfloor>))) = Inr oh
                         \<and> orderStatistic pw mode bc (Fin (of_int (max 1 \<lfloor>x\<rfloor>))) = Inr oc
                         \<and> hitDamageDistribution r
                             = applyModifierToDistribution oh (modifier (damage req))
                         \<and> criticalDamageDistribution r
                             = applyModifierToDistribution oc (modifier (damage req))))
         \<and> (\<exists>r. calculateAttackDamage pw (withRollCount req mode NInf) = Inr r
                 \<and> probabilities r = probs
                 \<and> hitDamageDistribution r
                     = applyModifierToDistribution bh (modifier (damage req))
                 \<and> criticalDamageDistribution r
                     = applyModifierToDistribution bc (modifier (damage req)))
         \<and> calculateAttackDamage pw (withRollCount req mode NaN)
             = Inl (Error ''count must be a positive integer'')
         \<and> calculateAttackDamage pw (withRollCount req mode PInf)
             = Inl (Error ''count must be a positive integer'')"
proof -
  note m = assms(2)
  have e: "\<exists>probs bh bc.
           calculateAttackOutcomeProbabilities (attack req) = Inr probs
         \<and> buildDamageDistribution (expression (damage req)) (Fin 1)
               (rerollLowThreshold (damage req)) = Inr bh
         \<and> buildDamageDistribution (expression (damage req)) (criticalDiceMultiplier (damage req))
               (rerollLowThreshold (damage req)) = Inr bc
         \<and> (\<forall>c. calculateAttackDamage pw (withRollCount req mode c) =
             (case applyDamageDiceRollMode pw bh mode (Some (resolveDamageRollCount mode (Some c))) of
                Inl e \<Rightarrow> Inl e
              | Inr rh \<Rightarrow>
                 (case applyDamageDiceRollMode pw bc mode (Some (resolveDamageRollCount mode (Some c))) of
                    Inl e \<Rightarrow> Inl e
                  | Inr rc \<Rightarrow>
                     Inr \<lparr>probabilities = probs,
                          hitDamageDistribution =
                            applyModifierToDistribution rh (modifier (damage req)),
                          criticalDamageDistribution =
                            applyModifierToDistribution rc (modifier (damage req)),
                          totalDamageDistribution = fromEntries
                            ((0, miss probs)
                             # map (\<lambda>entry. (outcome entry, fmul (probability entry) (hit probs)))
                                 (entries (applyModifierToDistribution rh (modifier (damage req))))
                             @ map (\<lambda>entry. (outcome entry, fmul (probability entry) (critical probs)))
                                 (entries (applyModifierToDistribution rc (modifier (damage req))))),
                          expectedDamageOnHit =
                            expectation (applyModifierToDistribution rh (modifier (damage req))),
                          expectedDamageOnCritical =
                            expectation (applyModifierToDistribution rc (modifier (damage req))),
                          expectedDamagePerAttack =
                            fadd (fmul (hit probs)
                                    (expectation (applyModifierToDistribution rh (modifier (damage req)))))
                                 (fmul (critical probs)
                                    (expectation (applyModifierToDistribution rc (modifier (damage req)))))\<rparr>)))"
  proof -
    from calculateAttackDamage_explicit_count[OF assms, of pw NaN]
    obtain probs bh bc where p: "calculateAttackOutcomeProbabilities (attack req) = Inr probs"
      and bh: "buildDamageDistribution (expression (damage req)) (Fin 1)
               (rerollLowThreshold (damage req)) = Inr bh"
      and bc: "buildDamageDistribution (expression (damage req)) (criticalDiceMultiplier (damage req))
               (rerollLowThreshold (damage req)) = Inr bc"
      by blast
    show ?thesis
    proof (intro exI conjI allI)
      show "calculateAttackOutcomeProbabilities (attack req) = Inr probs" by (rule p)
      show "buildDamageDistribution (expression (damage req)) (Fin 1)
               (rerollLowThreshold (damage req)) = Inr bh" by (rule bh)
      show "buildDamageDistribution (expression (damage req)) (criticalDiceMultiplier (damage req))
               (rerollLowThreshold (damage req)) = Inr bc" by (rule bc)
    next
      fix c
      from calculateAttackDamage_explicit_count[OF assms, of pw c] p bh bc
      show "calculateAttackDamage pw (withRollCount req mode c) =
             (case applyDamageDiceRollMode pw bh mode (Some (resolveDamageRollCount mode (Some c))) of
                Inl e \<Rightarrow> Inl e
              | Inr rh \<Rightarrow>
                 (case applyDamageDiceRollMode pw bc mode (Some (resolveDamageRollCount mode (Some c))) of
                    Inl e \<Rightarrow> Inl e
                  | Inr rc \<Rightarrow>
                     Inr \<lparr>probabilities = probs,
                          hitDamageDistribution =
                            applyModifierToDistribution rh (modifier (damage req)),
                          criticalDamageDistribution =
                            applyModifierToDistribution rc (modifier (damage req)),
                          totalDamageDistribution = fromEntries
                            ((0, miss probs)
                             # map (\<lambda>entry. (outcome entry, fmul (probability entry) (hit probs)))
                                 (entries (applyModifierToDistribution rh (modifier (damage req))))
                             @ map (\<lambda>entry. (outcome entry, fmul (probability entry) (critical probs)))
                                 (entries (applyModifierToDistribution rc (modifier (damage req))))),
                          expectedDamageOnHit =
                            expectation (applyModifierToDistribution rh (modifier (damage req))),
                          expectedDamageOnCritical =
                            expectation (applyModifierToDistribution rc (modifier (damage req))),
                          expectedDamagePerAttack =
                            fadd (fmul (hit probs)
                                    (expectation (applyModifierToDistribution rh (modifier (damage req)))))
                                 (fmul (critical probs)
                                    (expectation (applyModifierToDistribution rc (modifier (damage req)))))\<rparr>))"
        by auto
    qed
  qed
  then obtain probs bh bc where p: "calculateAttackOutcomeProbabilities (attack req) = Inr probs"
      and bh: "buildDamageDistribution (expression (damage req)) (Fin 1)
               (rerollLowThreshold (damage req)) = Inr bh"
      and bc: "buildDamageDistribution (expression (damage req)) (criticalDiceMultiplier (damage req))
               (rerollLowThreshold (damage req)) = Inr bc"
      and c: "\<And>c. calculateAttackDamage pw (withRollCount req mode c) =
             (case applyDamageDiceRollMode pw bh mode (Some (resolveDamageRollCount mode (Some c))) of
                Inl e \<Rightarrow> Inl e
              | Inr rh \<Rightarrow>
                 (case applyDamageDiceRollMode pw bc mode (Some (resolveDamageRollCount mode (Some c))) of
                    Inl e \<Rightarrow> Inl e
                  | Inr rc \<Rightarrow>
                     Inr \<lparr>probabilities = probs,
                          hitDamageDistribution =
                            applyModifierToDistribution rh (modifier (damage req)),
                          criticalDamageDistribution =
                            applyModifierToDistribution rc (modifier (damage req)),
                          totalDamageDistribution = fromEntries
                            ((0, miss probs)
                             # map (\<lambda>entry. (outcome entry, fmul (probability entry) (hit probs)))
                                 (entries (applyModifierToDistribution rh (modifier (damage req))))
                             @ map (\<lambda>entry. (outcome entry, fmul (probability entry) (critical probs)))
                                 (entries (applyModifierToDistribution rc (modifier (damage req))))),
                          expectedDamageOnHit =
                            expectation (applyModifierToDistribution rh (modifier (damage req))),
                          expectedDamageOnCritical =
                            expectation (applyModifierToDistribution rc (modifier (damage req))),
                          expectedDamagePerAttack =
                            fadd (fmul (hit probs)
                                    (expectation (applyModifierToDistribution rh (modifier (damage req)))))
                                 (fmul (critical probs)
                                    (expectation (applyModifierToDistribution rc (modifier (damage req)))))\<rparr>))"
    by blast
  have fin: "\<exists>r. calculateAttackDamage pw (withRollCount req mode (Fin x)) = Inr r
                 \<and> probabilities r = probs
                 \<and> (if max 1 \<lfloor>x\<rfloor> = 1
                    then hitDamageDistribution r
                           = applyModifierToDistribution bh (modifier (damage req))
                       \<and> criticalDamageDistribution r
                           = applyModifierToDistribution bc (modifier (damage req))
                    else \<exists>oh oc.
                           orderStatistic pw mode bh (Fin (of_int (max 1 \<lfloor>x\<rfloor>))) = Inr oh
                         \<and> orderStatistic pw mode bc (Fin (of_int (max 1 \<lfloor>x\<rfloor>))) = Inr oc
                         \<and> hitDamageDistribution r
                             = applyModifierToDistribution oh (modifier (damage req))
                         \<and> criticalDamageDistribution r
                             = applyModifierToDistribution oc (modifier (damage req)))" for x
  proof (cases "max 1 \<lfloor>x\<rfloor> = 1")
    case True
    then have a: "applyDamageDiceRollMode pw d mode (Some (resolveDamageRollCount mode (Some (Fin x)))) = Inr d"
      for d
      unfolding resolveDamageRollCount_Fin applyDamageDiceRollMode_int[OF m] by simp
    show ?thesis unfolding c a using True by simp
  next
    case False
    then have k: "2 \<le> max 1 \<lfloor>x\<rfloor>" by linarith
    obtain oh where oh: "orderStatistic pw mode bh (Fin (of_int (max 1 \<lfloor>x\<rfloor>))) = Inr oh"
      using orderStatistic_returns[OF k] by blast
    obtain oc where oc: "orderStatistic pw mode bc (Fin (of_int (max 1 \<lfloor>x\<rfloor>))) = Inr oc"
      using orderStatistic_returns[OF k] by blast
    have a: "applyDamageDiceRollMode pw d mode (Some (resolveDamageRollCount mode (Some (Fin x))))
               = orderStatistic pw mode d (Fin (of_int (max 1 \<lfloor>x\<rfloor>)))" for d
    proof -
      have "\<not> max 1 \<lfloor>x\<rfloor> \<le> 1" using k by linarith
      then show ?thesis
        unfolding resolveDamageRollCount_Fin applyDamageDiceRollMode_int[OF m] by (simp only: if_False)
    qed
    show ?thesis unfolding c a oh oc using False by simp
  qed
  have ninf: "\<exists>r. calculateAttackDamage pw (withRollCount req mode NInf) = Inr r
                 \<and> probabilities r = probs
                 \<and> hitDamageDistribution r
                     = applyModifierToDistribution bh (modifier (damage req))
                 \<and> criticalDamageDistribution r
                     = applyModifierToDistribution bc (modifier (damage req))"
  proof -
    have a: "applyDamageDiceRollMode pw d mode (Some (resolveDamageRollCount mode (Some NInf))) = Inr d"
      for d
      unfolding resolveDamageRollCount_special using m
      by (simp add: applyDamageDiceRollMode_def)
    show ?thesis unfolding c a by simp
  qed
  have nan: "calculateAttackDamage pw (withRollCount req mode NaN)
             = Inl (Error ''count must be a positive integer'')"
    unfolding c resolveDamageRollCount_special
    by (simp add: applyDamageDiceRollMode_rejects[OF m])
  have pinf: "calculateAttackDamage pw (withRollCount req mode PInf)
             = Inl (Error ''count must be a positive integer'')"
    unfolding c resolveDamageRollCount_special
    by (simp add: applyDamageDiceRollMode_rejects[OF m])
  show ?thesis
    using p bh bc fin ninf nan pinf by blast
qed

theorem damageRollCount_coerced_witness:
  "validRequest exampleRequest \<and> RAdvantage \<noteq> RNormal
   \<and> (\<exists>probs bh bc.
           calculateAttackOutcomeProbabilities (attack exampleRequest) = Inr probs
         \<and> buildDamageDistribution (expression (damage exampleRequest)) (Fin 1)
               (rerollLowThreshold (damage exampleRequest)) = Inr bh
         \<and> buildDamageDistribution (expression (damage exampleRequest))
               (criticalDiceMultiplier (damage exampleRequest))
               (rerollLowThreshold (damage exampleRequest)) = Inr bc
         \<and> (\<forall>x. \<exists>r. calculateAttackDamage powRounded (withRollCount exampleRequest RAdvantage (Fin x)) = Inr r
                 \<and> probabilities r = probs
                 \<and> (if max 1 \<lfloor>x\<rfloor> = 1
                    then hitDamageDistribution r
                           = applyModifierToDistribution bh (modifier (damage exampleRequest))
                       \<and> criticalDamageDistribution r
                           = applyModifierToDistribution bc (modifier (damage exampleRequest))
                    else \<exists>oh oc.
                           orderStatistic powRounded RAdvantage bh (Fin (of_int (max 1 \<lfloor>x\<rfloor>))) = Inr oh
                         \<and> orderStatistic powRounded RAdvantage bc (Fin (of_int (max 1 \<lfloor>x\<rfloor>))) = Inr oc
                         \<and> hitDamageDistribution r
                             = applyModifierToDistribution oh (modifier (damage exampleRequest))
                         \<and> criticalDamageDistribution r
                             = applyModifierToDistribution oc (modifier (damage exampleRequest))))
         \<and> (\<exists>r. calculateAttackDamage powRounded (withRollCount exampleRequest RAdvantage NInf) = Inr r
                 \<and> probabilities r = probs
                 \<and> hitDamageDistribution r
                     = applyModifierToDistribution bh (modifier (damage exampleRequest))
                 \<and> criticalDamageDistribution r
                     = applyModifierToDistribution bc (modifier (damage exampleRequest)))
         \<and> calculateAttackDamage powRounded (withRollCount exampleRequest RAdvantage NaN)
             = Inl (Error ''count must be a positive integer'')
         \<and> calculateAttackDamage powRounded (withRollCount exampleRequest RAdvantage PInf)
             = Inl (Error ''count must be a positive integer''))"
proof (intro conjI)
  show "validRequest exampleRequest" by (rule validRequest_exampleRequest)
  show "RAdvantage \<noteq> RNormal" by simp
  show "\<exists>probs bh bc.
           calculateAttackOutcomeProbabilities (attack exampleRequest) = Inr probs
         \<and> buildDamageDistribution (expression (damage exampleRequest)) (Fin 1)
               (rerollLowThreshold (damage exampleRequest)) = Inr bh
         \<and> buildDamageDistribution (expression (damage exampleRequest))
               (criticalDiceMultiplier (damage exampleRequest))
               (rerollLowThreshold (damage exampleRequest)) = Inr bc
         \<and> (\<forall>x. \<exists>r. calculateAttackDamage powRounded (withRollCount exampleRequest RAdvantage (Fin x)) = Inr r
                 \<and> probabilities r = probs
                 \<and> (if max 1 \<lfloor>x\<rfloor> = 1
                    then hitDamageDistribution r
                           = applyModifierToDistribution bh (modifier (damage exampleRequest))
                       \<and> criticalDamageDistribution r
                           = applyModifierToDistribution bc (modifier (damage exampleRequest))
                    else \<exists>oh oc.
                           orderStatistic powRounded RAdvantage bh (Fin (of_int (max 1 \<lfloor>x\<rfloor>))) = Inr oh
                         \<and> orderStatistic powRounded RAdvantage bc (Fin (of_int (max 1 \<lfloor>x\<rfloor>))) = Inr oc
                         \<and> hitDamageDistribution r
                             = applyModifierToDistribution oh (modifier (damage exampleRequest))
                         \<and> criticalDamageDistribution r
                             = applyModifierToDistribution oc (modifier (damage exampleRequest))))
         \<and> (\<exists>r. calculateAttackDamage powRounded (withRollCount exampleRequest RAdvantage NInf) = Inr r
                 \<and> probabilities r = probs
                 \<and> hitDamageDistribution r
                     = applyModifierToDistribution bh (modifier (damage exampleRequest))
                 \<and> criticalDamageDistribution r
                     = applyModifierToDistribution bc (modifier (damage exampleRequest)))
         \<and> calculateAttackDamage powRounded (withRollCount exampleRequest RAdvantage NaN)
             = Inl (Error ''count must be a positive integer'')
         \<and> calculateAttackDamage powRounded (withRollCount exampleRequest RAdvantage PInf)
             = Inl (Error ''count must be a positive integer'')"
    by (rule damageRollCount_coerced[OF validRequest_exampleRequest]) simp
qed

section \<open>Properties of the damage modifier and of the save path\<close>

lemma floor_half_rat: "\<lfloor>(of_int s :: rat) / 2\<rfloor> = s div 2"
proof -
  have "\<lfloor>(of_int s :: rat) / of_int 2\<rfloor> = s div 2"
    by (rule floor_divide_of_int_eq)
  then show ?thesis by simp
qed

text \<open>
  Claim C8. For every raw damage and every modifier, \<open>applyDamageModifier\<close> first floors
  the raw damage to the non-negative integer \<open>s = max 0 \<lfloor>raw\<rfloor>\<close>, and then returns 0 for
  immune, \<open>s div 2\<close> (the floor of \<open>s / 2\<close>) for resistant, \<open>s * 2\<close> for vulnerable and \<open>s\<close>
  for normal; at raw damage 5 this gives 2, 10 and 0.
\<close>

theorem applyDamageModifier_spec:
  "applyDamageModifier raw Immune = 0
   \<and> applyDamageModifier raw Resistant = (max 0 \<lfloor>raw\<rfloor>) div 2
   \<and> applyDamageModifier raw Vulnerable = (max 0 \<lfloor>raw\<rfloor>) * 2
   \<and> applyDamageModifier raw MNormal = max 0 \<lfloor>raw\<rfloor>
   \<and> 0 \<le> applyDamageModifier raw m
   \<and> applyDamageModifier 5 Resistant = 2
   \<and> applyDamageModifier 5 Vulnerable = 10
   \<and> applyDamageModifier 5 Immune = 0"
proof -
  have nonneg: "0 \<le> applyDamageModifier raw m"
    by (cases m) (simp_all add: applyDamageModifier_def Let_def floor_half_rat)
  show ?thesis
    using nonneg by (simp add: applyDamageModifier_def Let_def floor_half_rat)
qed


end
